theory Spec2Isabelle
  imports Complex_Main "HOL-Library.Monad_Syntax" "HOL-Library.Multiset"
begin

section \<open>Particle sorting utilities (Source/Particles/Sorting/SortingUtils.cpp)\<close>

text \<open>
  A device vector is a list. \<open>fillWithConsecutiveIntegers\<close> stores \<open>i\<close> at position
  \<open>i\<close> for every index of the vector (the GPU loop \<open>data[i] = i\<close>; the CPU branch,
  \<open>std::iota\<close> from \<open>0\<close>, writes the same values).
\<close>

definition fillWithConsecutiveIntegers :: "int list \<Rightarrow> int list" where
  "fillWithConsecutiveIntegers v =
     fold (\<lambda>i data. data[i := int i]) [0..<length v] v"

text \<open>
  \<open>fillWithConsecutiveReal\<close>, GPU branch: \<open>auto data = begin;\<close> copies the scalar
  \<open>begin\<close>, and the loop body \<open>{data+i*increment;}\<close> is an expression statement:
  the sum is computed and dropped, nothing is stored into \<open>v\<close>. The CPU branch
  (\<open>std::iota(begin, N, 0L)\<close>, a real and an integer where two iterators are
  expected) is not a well-formed call and has no behaviour to model.
\<close>

definition fillWithConsecutiveReal :: "real list \<Rightarrow> real \<Rightarrow> real \<Rightarrow> int \<Rightarrow> real list" where
  "fillWithConsecutiveReal v begin0 increment N =
     fold (\<lambda>i vec. let data = begin0; dropped = data + real i * increment in vec)
          [0..<nat N] v"

section \<open>Arrays\<close>

text \<open>
  An \<open>amrex::Array4\<close> is a dense block of cells. It is modelled as a finite map from
  cell index to value: the cells of the block are the domain of the map. Indexing
  outside the block is undefined behaviour in the source (no bounds check); every
  access of the model is checked and yields \<open>None\<close> there, so that a kernel that
  returns \<open>Some\<close> has touched cells of the block only.
\<close>

type_synonym 'k Array4 = "'k \<rightharpoonup> real"

definition a4_set :: "'k Array4 \<Rightarrow> 'k \<Rightarrow> real \<Rightarrow> 'k Array4 option" where
  "a4_set arr c v = (if c \<in> dom arr then Some (arr(c \<mapsto> v)) else None)"

text \<open>\<open>amrex::Gpu::Atomic::AddNoRet(&arr(c), v)\<close>: an indivisible \<open>arr(c) += v\<close>.\<close>

definition AddNoRet :: "'k Array4 \<Rightarrow> 'k \<Rightarrow> real \<Rightarrow> 'k Array4 option" where
  "AddNoRet arr c v = (case arr c of None \<Rightarrow> None | Some old \<Rightarrow> Some (arr(c \<mapsto> old + v)))"

section \<open>Shape factors\<close>

text \<open>
  Modelled from the spec: the functor \<open>Compute_shape_factor\<close> of
  Particles/ShapeFactors.H is not among the sources. The spec (4.1) asks for the
  standard B-spline family: order 0 a top-hat on one point, order 1 linear on two
  points, order 2 the quadratic B-spline on three points, order 3 the cubic B-spline
  on four points, returned with the index of the leftmost grid point touched. Its
  example (a particle at 3.25, order 1: weight 0.75 on point 3 and 0.25 on point 4)
  fixes the orientation. For an order above 3, which the spec does not support, the
  kernel's weight array keeps its zero initialiser and the index its initial 0.
\<close>

definition compute_shape_factor :: "nat \<Rightarrow> real \<Rightarrow> int \<times> real list" where
  "compute_shape_factor depos_order xmid =
     (if depos_order = 0 then
        (let j = \<lfloor>xmid + 1/2\<rfloor> in (j, [1]))
      else if depos_order = 1 then
        (let j = \<lfloor>xmid\<rfloor>; xint = xmid - of_int j in (j, [1 - xint, xint]))
      else if depos_order = 2 then
        (let j = \<lfloor>xmid + 1/2\<rfloor>; xint = xmid - of_int j in
           (j - 1, [1/2 * (1/2 - xint) * (1/2 - xint),
                    3/4 - xint * xint,
                    1/2 * (1/2 + xint) * (1/2 + xint)]))
      else if depos_order = 3 then
        (let j = \<lfloor>xmid\<rfloor>; xint = xmid - of_int j in
           (j - 1, [1/6 * (1 - xint) * (1 - xint) * (1 - xint),
                    2/3 - xint * xint * (1 - xint / 2),
                    2/3 - (1 - xint) * (1 - xint) * (1 - 1/2 * (1 - xint)),
                    1/6 * xint * xint * xint]))
      else (0, replicate (Suc depos_order) 0))"

section \<open>Charge deposition (Source/Particles/Deposition/ChargeDeposition.H)\<close>

text \<open>
  The source is compiled for one geometry at a time (\<open>WARPX_DIM_1D_Z\<close>,
  \<open>WARPX_DIM_XZ\<close>, \<open>WARPX_DIM_RZ\<close>, \<open>WARPX_DIM_3D\<close>); the model takes the geometry as
  an argument. \<open>AMREX_SPACEDIM\<close> is the number of grid axes of the geometry and
  \<open>WARPX_ZINDEX\<close> the position of the z axis among them (the last one).
\<close>

datatype WarpXDim = DIM_1D_Z | DIM_XZ | DIM_RZ | DIM_3D

fun AMREX_SPACEDIM :: "WarpXDim \<Rightarrow> nat" where
  "AMREX_SPACEDIM DIM_1D_Z = 1"
| "AMREX_SPACEDIM DIM_XZ = 2"
| "AMREX_SPACEDIM DIM_RZ = 2"
| "AMREX_SPACEDIM DIM_3D = 3"

definition WARPX_ZINDEX :: "WarpXDim \<Rightarrow> nat" where
  "WARPX_ZINDEX geom = AMREX_SPACEDIM geom - 1"

text \<open>\<open>amrex::IndexType\<close>: the staggering of an array along one axis.\<close>

datatype IndexType = CELL | NODE

text \<open>A cell of the charge array: \<open>rho_arr(i, j, k, n)\<close>.\<close>

type_synonym rho_cell = "int \<times> int \<times> int \<times> int"

text \<open>
  The arguments of a deposition call that stay fixed over the particle loop:
  the particle accessors (\<open>GetPosition\<close>, the weights \<open>wp\<close>, the optional
  ionization levels \<open>ion_lev\<close>, a null pointer being \<open>None\<close>), the cell size
  \<open>dx\<close>, the physical origin \<open>xyzmin\<close>, the index origin \<open>lo\<close>, the species
  charge \<open>q\<close>, the number of azimuthal modes and the staggering \<open>rho_type\<close> of
  the charge array (\<open>rho_fab.box().type()\<close>).
\<close>

record DepositionArgs =
  GetPosition :: "nat \<Rightarrow> real \<times> real \<times> real"
  wp :: "nat \<Rightarrow> real"
  ion_lev :: "(nat \<Rightarrow> int) option"
  dx :: "real \<times> real \<times> real"
  xyzmin :: "real \<times> real \<times> real"
  lo :: "int \<times> int \<times> int"
  q :: real
  n_rz_azimuthal_modes :: int
  rho_type :: "nat \<Rightarrow> IndexType"

definition invvol :: "WarpXDim \<Rightarrow> real \<times> real \<times> real \<Rightarrow> real" where
  "invvol geom d =
     (case d of (dx0, dx1, dx2) \<Rightarrow>
        (case geom of
           DIM_1D_Z \<Rightarrow> 1 / dx2
         | DIM_XZ \<Rightarrow> (1 / dx0) * (1 / dx2)
         | DIM_RZ \<Rightarrow> (1 / dx0) * (1 / dx2)
         | DIM_3D \<Rightarrow> (1 / dx0) * (1 / dx1) * (1 / dx2)))"

text \<open>The deposited weight of particle \<open>ip\<close>: \<open>wq = q*wp[ip]*invvol\<close>, times the ionization level when there is one.\<close>

definition particle_wq :: "WarpXDim \<Rightarrow> DepositionArgs \<Rightarrow> nat \<Rightarrow> real" where
  "particle_wq geom args ip =
     (let wq = q args * wp args ip * invvol geom (dx args)
      in case ion_lev args of None \<Rightarrow> wq | Some lev \<Rightarrow> wq * real_of_int (lev ip))"

text \<open>
  The direction of the particle in the transverse plane (RZ geometry). The two
  quotients are the only divisions by a particle quantity in the kernel; they are
  modelled as checked divisions, so that a division by zero would show as \<open>None\<close>.
\<close>

definition checked_div :: "real \<Rightarrow> real \<Rightarrow> real option" where
  "checked_div a b = (if b = 0 then None else Some (a / b))"

definition rz_direction :: "real \<Rightarrow> real \<Rightarrow> (real \<times> real) option" where
  "rz_direction xp yp =
     (let rp = sqrt (xp * xp + yp * yp) in
      if rp > 0 then
        do { costheta \<leftarrow> checked_div xp rp;
             sintheta \<leftarrow> checked_div yp rp;
             Some (costheta, sintheta) }
      else Some (1, 0))"

text \<open>
  One axis: the shape factor is evaluated at \<open>x\<close> on a node-centred axis and at
  \<open>x - 0.5\<close> on a cell-centred one.
\<close>

definition shape_on_axis :: "nat \<Rightarrow> IndexType \<Rightarrow> real \<Rightarrow> int \<times> real list" where
  "shape_on_axis depos_order ty x =
     (case ty of
        NODE \<Rightarrow> compute_shape_factor depos_order x
      | CELL \<Rightarrow> compute_shape_factor depos_order (x - 1/2))"

text \<open>
  The loop over the azimuthal modes at one stencil cell \<open>(ci, ck)\<close> with tensor
  weight times charge \<open>w\<close>: \<open>xy\<close> starts at \<open>xy0\<close> and is multiplied by \<open>xy0\<close> after
  each mode.
\<close>

definition rz_mode_loop ::
  "int \<Rightarrow> int \<Rightarrow> int \<Rightarrow> real \<Rightarrow> complex \<Rightarrow> rho_cell Array4 \<Rightarrow> rho_cell Array4 option" where
  "rz_mode_loop n_modes ci ck w xy0 arr =
     fst (fold (\<lambda>imode (st, xy).
                  (do { a \<leftarrow> st;
                        b \<leftarrow> AddNoRet a (ci, ck, 0, 2 * int imode - 1) (2 * w * Re xy);
                        AddNoRet b (ci, ck, 0, 2 * int imode) (2 * w * Im xy) },
                   xy * xy0))
               [1..<nat n_modes] (Some arr, xy0))"

text \<open>
  The body of the particle loop for particle \<open>ip\<close>, writing into \<open>arr\<close> (the charge
  array in the direct kernel, the accumulation buffer in the tiled one: the two
  kernels have the same body).
\<close>

definition deposit_particle ::
  "WarpXDim \<Rightarrow> nat \<Rightarrow> DepositionArgs \<Rightarrow> nat \<Rightarrow> rho_cell Array4 \<Rightarrow> rho_cell Array4 option" where
  "deposit_particle geom depos_order args ip arr =
     (let wq = particle_wq geom args ip;
          (xp, yp, zp) = GetPosition args ip;
          (dx0, dx1, dx2) = dx args;
          (xmin, ymin, zmin) = xyzmin args;
          (lo_x, lo_y, lo_z) = lo args;
          dxi = 1 / dx0; dyi = 1 / dx1; dzi = 1 / dx2;
          z = (zp - zmin) * dzi;
          (k, sz) = shape_on_axis depos_order (rho_type args (WARPX_ZINDEX geom)) z
      in case geom of
        DIM_1D_Z \<Rightarrow>
          fold (\<lambda>iz st. do { a \<leftarrow> st;
                              AddNoRet a (lo_x + k + int iz, 0, 0, 0) (sz ! iz * wq) })
               [0..<Suc depos_order] (Some arr)
      | DIM_XZ \<Rightarrow>
          (let x = (xp - xmin) * dxi;
               (i, sx) = shape_on_axis depos_order (rho_type args 0) x
           in fold (\<lambda>iz. fold (\<lambda>ix st. do { a \<leftarrow> st;
                       AddNoRet a (lo_x + i + int ix, lo_y + k + int iz, 0, 0)
                                  (sx ! ix * sz ! iz * wq) })
                     [0..<Suc depos_order])
                   [0..<Suc depos_order] (Some arr))
      | DIM_RZ \<Rightarrow>
          do { (costheta, sintheta) \<leftarrow> rz_direction xp yp;
               let xy0 = Complex costheta sintheta;
                   rp = sqrt (xp * xp + yp * yp);
                   x = (rp - xmin) * dxi;
                   (i, sx) = shape_on_axis depos_order (rho_type args 0) x
               in fold (\<lambda>iz. fold (\<lambda>ix st. do { a \<leftarrow> st;
                           b \<leftarrow> AddNoRet a (lo_x + i + int ix, lo_y + k + int iz, 0, 0)
                                           (sx ! ix * sz ! iz * wq);
                           rz_mode_loop (n_rz_azimuthal_modes args)
                             (lo_x + i + int ix) (lo_y + k + int iz)
                             (sx ! ix * sz ! iz * wq) xy0 b })
                         [0..<Suc depos_order])
                       [0..<Suc depos_order] (Some arr) }
      | DIM_3D \<Rightarrow>
          (let x = (xp - xmin) * dxi;
               (i, sx) = shape_on_axis depos_order (rho_type args 0) x;
               y = (yp - ymin) * dyi;
               (j, sy) = shape_on_axis depos_order (rho_type args 1) y
           in fold (\<lambda>iz. fold (\<lambda>iy. fold (\<lambda>ix st. do { a \<leftarrow> st;
                       AddNoRet a (lo_x + i + int ix, lo_y + j + int iy, lo_z + k + int iz, 0)
                                  (sx ! ix * sy ! iy * sz ! iz * wq) })
                     [0..<Suc depos_order])
                   [0..<Suc depos_order])
                 [0..<Suc depos_order] (Some arr)))"

text \<open>
  \<open>doChargeDepositionShapeN\<close>: the particle loop over \<open>ip = 0, ..., np_to_deposit - 1\<close>.
  \<open>amrex::ParallelFor\<close> runs the bodies in no fixed order and the atomic adds
  make every interleaving a sequence of whole adds; the model runs them in index
  order.
\<close>

definition doChargeDepositionShapeN ::
  "WarpXDim \<Rightarrow> nat \<Rightarrow> DepositionArgs \<Rightarrow> int \<Rightarrow> rho_cell Array4 \<Rightarrow> rho_cell Array4 option" where
  "doChargeDepositionShapeN geom depos_order args np_to_deposit rho_arr =
     fold (\<lambda>ip st. do { a \<leftarrow> st; deposit_particle geom depos_order args ip a })
          [0..<nat np_to_deposit] (Some rho_arr)"

text \<open>
  A run of atomic adds, in order: what a loop of \<open>AddNoRet\<close> calls does to an array.
  \<open>contrib adds c\<close> is the sum of the values the run adds to cell \<open>c\<close>.
\<close>

definition apply_adds :: "('k \<times> real) list \<Rightarrow> 'k Array4 \<Rightarrow> 'k Array4 option" where
  "apply_adds adds arr = fold (\<lambda>cv st. do { a \<leftarrow> st; AddNoRet a (fst cv) (snd cv) }) adds (Some arr)"

definition contrib :: "('k \<times> real) list \<Rightarrow> 'k \<Rightarrow> real" where
  "contrib adds c = sum_list (map snd (filter (\<lambda>cv. fst cv = c) adds))"

text \<open>The value \<open>rz_direction\<close> returns, as a total function.\<close>

definition rz_dir :: "real \<Rightarrow> real \<Rightarrow> real \<times> real" where
  "rz_dir xp yp =
     (let rp = sqrt (xp * xp + yp * yp) in if rp > 0 then (xp / rp, yp / rp) else (1, 0))"

text \<open>
  The atomic adds of the mode loop at one stencil cell, and of one particle, as lists:
  the same loops as \<open>rz_mode_loop\<close> and \<open>deposit_particle\<close>, collecting each
  \<open>(cell, value)\<close> instead of applying it.
\<close>

definition mode_adds :: "int \<Rightarrow> int \<Rightarrow> int \<Rightarrow> real \<Rightarrow> complex \<Rightarrow> (rho_cell \<times> real) list" where
  "mode_adds n_modes ci ck w xy0 =
     concat (map (\<lambda>imode. [((ci, ck, 0, 2 * int imode - 1), 2 * w * Re (xy0 ^ imode)),
                            ((ci, ck, 0, 2 * int imode), 2 * w * Im (xy0 ^ imode))])
                 [1..<nat n_modes])"

definition particle_adds ::
  "WarpXDim \<Rightarrow> nat \<Rightarrow> DepositionArgs \<Rightarrow> nat \<Rightarrow> (rho_cell \<times> real) list" where
  "particle_adds geom depos_order args ip =
     (let wq = particle_wq geom args ip;
          (xp, yp, zp) = GetPosition args ip;
          (dx0, dx1, dx2) = dx args;
          (xmin, ymin, zmin) = xyzmin args;
          (lo_x, lo_y, lo_z) = lo args;
          dxi = 1 / dx0; dyi = 1 / dx1; dzi = 1 / dx2;
          z = (zp - zmin) * dzi;
          (k, sz) = shape_on_axis depos_order (rho_type args (WARPX_ZINDEX geom)) z
      in case geom of
        DIM_1D_Z \<Rightarrow>
          map (\<lambda>iz. ((lo_x + k + int iz, 0, 0, 0), sz ! iz * wq)) [0..<Suc depos_order]
      | DIM_XZ \<Rightarrow>
          (let x = (xp - xmin) * dxi;
               (i, sx) = shape_on_axis depos_order (rho_type args 0) x
           in concat (map (\<lambda>iz. map (\<lambda>ix.
                  ((lo_x + i + int ix, lo_y + k + int iz, 0, 0), sx ! ix * sz ! iz * wq))
                [0..<Suc depos_order]) [0..<Suc depos_order]))
      | DIM_RZ \<Rightarrow>
          (let (costheta, sintheta) = rz_dir xp yp;
               xy0 = Complex costheta sintheta;
               rp = sqrt (xp * xp + yp * yp);
               x = (rp - xmin) * dxi;
               (i, sx) = shape_on_axis depos_order (rho_type args 0) x
           in concat (map (\<lambda>iz. concat (map (\<lambda>ix.
                  ((lo_x + i + int ix, lo_y + k + int iz, 0, 0), sx ! ix * sz ! iz * wq)
                  # mode_adds (n_rz_azimuthal_modes args) (lo_x + i + int ix) (lo_y + k + int iz)
                      (sx ! ix * sz ! iz * wq) xy0)
                [0..<Suc depos_order])) [0..<Suc depos_order]))
      | DIM_3D \<Rightarrow>
          (let x = (xp - xmin) * dxi;
               (i, sx) = shape_on_axis depos_order (rho_type args 0) x;
               y = (yp - ymin) * dyi;
               (j, sy) = shape_on_axis depos_order (rho_type args 1) y
           in concat (map (\<lambda>iz. concat (map (\<lambda>iy. map (\<lambda>ix.
                  ((lo_x + i + int ix, lo_y + j + int iy, lo_z + k + int iz, 0),
                   sx ! ix * sy ! iy * sz ! iz * wq))
                [0..<Suc depos_order]) [0..<Suc depos_order])) [0..<Suc depos_order])))"

text \<open>
  The component of a cell, the total of one component of an array over all its cells,
  and the volume of a grid cell (the reciprocal of the kernel's \<open>invvol\<close>).
\<close>

definition comp_of :: "rho_cell \<Rightarrow> int" where
  "comp_of c = snd (snd (snd c))"

definition array_total :: "rho_cell Array4 \<Rightarrow> int \<Rightarrow> real" where
  "array_total arr n = (\<Sum>c\<in>{c \<in> dom arr. comp_of c = n}. the (arr c))"

definition cell_volume :: "WarpXDim \<Rightarrow> real \<times> real \<times> real \<Rightarrow> real" where
  "cell_volume geom d =
     (case d of (dx0, dx1, dx2) \<Rightarrow>
        (case geom of
           DIM_1D_Z \<Rightarrow> dx2
         | DIM_XZ \<Rightarrow> dx0 * dx2
         | DIM_RZ \<Rightarrow> dx0 * dx2
         | DIM_3D \<Rightarrow> dx0 * dx1 * dx2))"

text \<open>The cells particle \<open>ip\<close> writes to: its stencil, in every component it deposits.\<close>

definition deposit_cells :: "WarpXDim \<Rightarrow> nat \<Rightarrow> DepositionArgs \<Rightarrow> nat \<Rightarrow> rho_cell list" where
  "deposit_cells geom depos_order args ip = map fst (particle_adds geom depos_order args ip)"

text \<open>An all-zero array on the cells \<open>D\<close>, and a particle batch for the examples.\<close>

definition zero_array :: "'k set \<Rightarrow> 'k Array4" where
  "zero_array D = (\<lambda>c. if c \<in> D then Some 0 else None)"

definition example_particle :: "real \<Rightarrow> int \<Rightarrow> DepositionArgs" where
  "example_particle xpos n_modes =
     \<lparr> GetPosition = (\<lambda>ip. (xpos, 0, 5/2)), wp = (\<lambda>ip. 1), ion_lev = None,
       dx = (1, 1, 1), xyzmin = (0, 0, 0), lo = (0, 0, 0), q = 1,
       n_rz_azimuthal_modes = n_modes, rho_type = (\<lambda>d. NODE) \<rparr>"

text \<open>The adds of one particle in RZ geometry, with the shape factors and direction named.\<close>

definition rz_adds ::
  "nat \<Rightarrow> int \<Rightarrow> int \<Rightarrow> int \<Rightarrow> real list \<Rightarrow> real list \<Rightarrow> real \<Rightarrow> complex \<Rightarrow> (rho_cell \<times> real) list" where
  "rz_adds depos_order n_modes ci0 ck0 sx sz wq xy0 =
     concat (map (\<lambda>iz. concat (map (\<lambda>ix.
        ((ci0 + int ix, ck0 + int iz, 0, 0), sx ! ix * sz ! iz * wq)
        # mode_adds n_modes (ci0 + int ix) (ck0 + int iz) (sx ! ix * sz ! iz * wq) xy0)
      [0..<Suc depos_order])) [0..<Suc depos_order])"

text \<open>
  An \<open>amrex::IntVect\<close> is a list of \<open>AMREX_SPACEDIM\<close> integers, and an \<open>amrex::Box\<close>
  a pair of corners; \<open>contains\<close> holds for a point between the corners on every axis.
  A cell of a field array is addressed by an \<open>IntVect\<close> and a component.
\<close>

type_synonym IntVect = "int list"

record Box =
  smallend :: IntVect
  bigend :: IntVect

definition contains :: "Box \<Rightarrow> IntVect \<Rightarrow> bool" where
  "contains b p = (list_all2 (\<le>) (smallend b) p \<and> list_all2 (\<le>) p (bigend b))"

type_synonym field_cell = "IntVect \<times> int"

text \<open>
  The enumeration \<open>FieldBoundaryType\<close> is declared in Utils/WarpXAlgorithmSelection.H,
  which is not among the sources. The kernels only compare a boundary type with
  \<open>FieldBoundaryType::PEC\<close>, so the model keeps that value and one for every other type.
\<close>

datatype FieldBoundaryType = PEC | OtherBoundary

definition is_boundary_PEC :: "(nat \<Rightarrow> FieldBoundaryType) \<Rightarrow> nat \<Rightarrow> bool" where
  "is_boundary_PEC fboundary dir = (fboundary dir = PEC)"

definition get_cell_count_to_boundary ::
  "IntVect \<Rightarrow> IntVect \<Rightarrow> IntVect \<Rightarrow> IntVect \<Rightarrow> nat \<Rightarrow> nat \<Rightarrow> int" where
  "get_cell_count_to_boundary dom_lo dom_hi ijk_vec is_nodal idim iside =
     (if iside = 0 then dom_lo ! idim - ijk_vec ! idim
      else ijk_vec ! idim - (dom_hi ! idim + is_nodal ! idim))"

text \<open>Whether side \<open>iside\<close> (0 low, 1 high) of axis \<open>idim\<close> is a PEC boundary.\<close>

definition isPECBoundary ::
  "(nat \<Rightarrow> FieldBoundaryType) \<Rightarrow> (nat \<Rightarrow> FieldBoundaryType) \<Rightarrow> nat \<Rightarrow> nat \<Rightarrow> bool" where
  "isPECBoundary fbndry_lo fbndry_hi idim iside =
     (if iside = 0 then is_boundary_PEC fbndry_lo idim else is_boundary_PEC fbndry_hi idim)"

text \<open>
  The loop nest of every boundary kernel:
  \<open>for (idim = 0; idim < AMREX_SPACEDIM; ++idim) for (iside = 0; iside < 2; ++iside)\<close>.
\<close>

definition for_sides :: "nat \<Rightarrow> (nat \<Rightarrow> nat \<Rightarrow> 's \<Rightarrow> 's) \<Rightarrow> 's \<Rightarrow> 's" where
  "for_sides ndim body s = fold (\<lambda>idim. fold (\<lambda>iside. body idim iside) [0..<2]) [0..<ndim] s"

text \<open>The local variables of \<open>SetEfieldOnPEC\<close> and \<open>SetBfieldOnPEC\<close>.\<close>

record pec_vars =
  ijk_mirror :: IntVect
  OnPECBoundary :: bool
  GuardCell :: bool
  sign :: real

text \<open>
  Whether component \<open>icomp\<close> is tangential (for E) or normal (for B) to the boundary
  across axis \<open>idim\<close>, by geometry.
\<close>

definition is_tangent_to_PEC :: "WarpXDim \<Rightarrow> nat \<Rightarrow> nat \<Rightarrow> bool" where
  "is_tangent_to_PEC geom icomp idim =
     (case geom of
        DIM_XZ \<Rightarrow> icomp \<noteq> AMREX_SPACEDIM geom * idim
      | DIM_RZ \<Rightarrow> icomp \<noteq> AMREX_SPACEDIM geom * idim
      | DIM_1D_Z \<Rightarrow> icomp \<noteq> idim + 2
      | DIM_3D \<Rightarrow> icomp \<noteq> idim)"


text \<open>
  The body of the loop nest of \<open>SetEfieldOnPEC\<close> and \<open>SetBfieldOnPEC\<close> for axis
  \<open>idim\<close> and side \<open>iside\<close>. The two kernels have the same body but for the flag that
  zeroes and flips the sign: \<open>is_tangent_to_PEC\<close> in \<open>SetEfieldOnPEC\<close>,
  \<open>is_normal_to_PEC\<close> in \<open>SetBfieldOnPEC\<close>; it is the argument \<open>flips\<close>. The radial
  factor of RZ geometry divides by \<open>rguard\<close>, the radius of the guard cell.
\<close>

definition pec_side ::
  "WarpXDim \<Rightarrow> (nat \<Rightarrow> bool) \<Rightarrow> nat \<Rightarrow> IntVect \<Rightarrow> IntVect \<Rightarrow> IntVect \<Rightarrow> IntVect
     \<Rightarrow> (nat \<Rightarrow> FieldBoundaryType) \<Rightarrow> (nat \<Rightarrow> FieldBoundaryType) \<Rightarrow> nat \<Rightarrow> nat
     \<Rightarrow> pec_vars \<Rightarrow> pec_vars" where
  "pec_side geom flips icomp dom_lo dom_hi ijk_vec is_nodal fbndry_lo fbndry_hi idim iside st =
     (if isPECBoundary fbndry_lo fbndry_hi idim iside then
        (let ig = get_cell_count_to_boundary dom_lo dom_hi ijk_vec is_nodal idim iside in
         if ig = 0 then
           (if flips idim \<and> is_nodal ! idim = 1 then st\<lparr>OnPECBoundary := True\<rparr> else st)
         else if ig > 0 then
           (let st1 = st\<lparr>ijk_mirror := (ijk_mirror st)[idim :=
                           (if iside = 0 then dom_lo ! idim + ig - (1 - is_nodal ! idim)
                            else dom_hi ! idim + 1 - ig)],
                         GuardCell := True\<rparr>;
                st2 = (if flips idim then st1\<lparr>sign := sign st1 * (- 1)\<rparr> else st1)
            in if geom = DIM_RZ \<and> icomp = 0 \<and> idim = 0 \<and> iside = 1 then
                 (let rguard = of_int (ijk_vec ! idim) + 1/2 * (1 - of_int (is_nodal ! idim));
                      rmirror = of_int (ijk_mirror st2 ! idim) + 1/2 * (1 - of_int (is_nodal ! idim))
                  in st2\<lparr>sign := sign st2 * (rmirror / rguard)\<rparr>)
               else st2)
         else st)
      else st)"

text \<open>The loop nest, then the write to the cell \<open>(ijk_vec, n)\<close>.\<close>

definition set_field_on_PEC ::
  "WarpXDim \<Rightarrow> (nat \<Rightarrow> bool) \<Rightarrow> nat \<Rightarrow> IntVect \<Rightarrow> IntVect \<Rightarrow> IntVect \<Rightarrow> int \<Rightarrow> field_cell Array4
     \<Rightarrow> IntVect \<Rightarrow> (nat \<Rightarrow> FieldBoundaryType) \<Rightarrow> (nat \<Rightarrow> FieldBoundaryType)
     \<Rightarrow> field_cell Array4 option" where
  "set_field_on_PEC geom flips icomp dom_lo dom_hi ijk_vec n field is_nodal fbndry_lo fbndry_hi =
     (let st = for_sides (AMREX_SPACEDIM geom)
                 (pec_side geom flips icomp dom_lo dom_hi ijk_vec is_nodal fbndry_lo fbndry_hi)
                 \<lparr>ijk_mirror = ijk_vec, OnPECBoundary = False, GuardCell = False, sign = 1\<rparr>
      in if OnPECBoundary st then a4_set field (ijk_vec, n) 0
         else if GuardCell st then
           do { v \<leftarrow> field (ijk_mirror st, n);
                a4_set field (ijk_vec, n) (sign st * v) }
         else Some field)"

definition SetEfieldOnPEC ::
  "WarpXDim \<Rightarrow> nat \<Rightarrow> IntVect \<Rightarrow> IntVect \<Rightarrow> IntVect \<Rightarrow> int \<Rightarrow> field_cell Array4
     \<Rightarrow> IntVect \<Rightarrow> (nat \<Rightarrow> FieldBoundaryType) \<Rightarrow> (nat \<Rightarrow> FieldBoundaryType)
     \<Rightarrow> field_cell Array4 option" where
  "SetEfieldOnPEC geom icomp dom_lo dom_hi ijk_vec n Efield is_nodal fbndry_lo fbndry_hi =
     set_field_on_PEC geom (is_tangent_to_PEC geom icomp) icomp dom_lo dom_hi ijk_vec n Efield
       is_nodal fbndry_lo fbndry_hi"


text \<open>The mirror cell of \<open>ijk_vec\<close> across side \<open>iside\<close> of axis \<open>idim\<close>: \<open>mirrorfac - ijk_vec\<close> on that axis.\<close>

definition mirror_cell :: "(nat \<Rightarrow> nat \<Rightarrow> int) \<Rightarrow> IntVect \<Rightarrow> nat \<Rightarrow> nat \<Rightarrow> IntVect" where
  "mirror_cell mirrorfac ijk_vec idim iside =
     ijk_vec[idim := mirrorfac idim iside - ijk_vec ! idim]"

text \<open>\<open>SetRhoOrJfieldFromPEC\<close>: the bodies of its two loop nests, and the kernel.\<close>

definition rho_fold_guard ::
  "int \<Rightarrow> IntVect \<Rightarrow> (nat \<Rightarrow> nat \<Rightarrow> int) \<Rightarrow> (nat \<Rightarrow> nat \<Rightarrow> real) \<Rightarrow> (nat \<Rightarrow> nat \<Rightarrow> bool) \<Rightarrow> Box
     \<Rightarrow> nat \<Rightarrow> nat \<Rightarrow> field_cell Array4 \<Rightarrow> field_cell Array4 option" where
  "rho_fold_guard n ijk_vec mirrorfac psign is_pec fabbox idim iside field =
     (if \<not> is_pec idim iside then Some field
      else
        let iv_mirror = mirror_cell mirrorfac ijk_vec idim iside in
        if ijk_vec = iv_mirror then a4_set field (ijk_vec, n) 0
        else if contains fabbox iv_mirror then
          do { a \<leftarrow> field (ijk_vec, n);
               b \<leftarrow> field (iv_mirror, n);
               a4_set field (ijk_vec, n) (a + psign idim iside * b) }
        else Some field)"

definition rho_set_guard ::
  "int \<Rightarrow> IntVect \<Rightarrow> (nat \<Rightarrow> nat \<Rightarrow> int) \<Rightarrow> (nat \<Rightarrow> nat \<Rightarrow> bool) \<Rightarrow> (nat \<Rightarrow> bool) \<Rightarrow> Box
     \<Rightarrow> nat \<Rightarrow> nat \<Rightarrow> field_cell Array4 \<Rightarrow> field_cell Array4 option" where
  "rho_set_guard n ijk_vec mirrorfac is_pec tangent_to_bndy fabbox idim iside field =
     (if \<not> is_pec idim iside then Some field
      else
        let iv_mirror = mirror_cell mirrorfac ijk_vec idim iside in
        if ijk_vec \<noteq> iv_mirror \<and> contains fabbox iv_mirror then
          do { a \<leftarrow> field (ijk_vec, n);
               if tangent_to_bndy idim then a4_set field (iv_mirror, n) (- a)
               else a4_set field (iv_mirror, n) a }
        else Some field)"

definition SetRhoOrJfieldFromPEC ::
  "WarpXDim \<Rightarrow> int \<Rightarrow> IntVect \<Rightarrow> field_cell Array4 \<Rightarrow> (nat \<Rightarrow> nat \<Rightarrow> int) \<Rightarrow> (nat \<Rightarrow> nat \<Rightarrow> real)
     \<Rightarrow> (nat \<Rightarrow> nat \<Rightarrow> bool) \<Rightarrow> (nat \<Rightarrow> bool) \<Rightarrow> Box \<Rightarrow> field_cell Array4 option" where
  "SetRhoOrJfieldFromPEC geom n ijk_vec field mirrorfac psign is_pec tangent_to_bndy fabbox =
     do { f1 \<leftarrow> for_sides (AMREX_SPACEDIM geom)
                  (\<lambda>idim iside st. st \<bind> rho_fold_guard n ijk_vec mirrorfac psign is_pec fabbox idim iside)
                  (Some field);
          for_sides (AMREX_SPACEDIM geom)
            (\<lambda>idim iside st. st \<bind> rho_set_guard n ijk_vec mirrorfac is_pec tangent_to_bndy fabbox idim iside)
            (Some f1) }"

text \<open>\<open>SetNeumannOnPEC\<close>: the body of its loop nest, and the kernel.\<close>

definition neumann_side ::
  "int \<Rightarrow> IntVect \<Rightarrow> (nat \<Rightarrow> nat \<Rightarrow> int) \<Rightarrow> (nat \<Rightarrow> nat \<Rightarrow> bool) \<Rightarrow> Box
     \<Rightarrow> nat \<Rightarrow> nat \<Rightarrow> field_cell Array4 \<Rightarrow> field_cell Array4 option" where
  "neumann_side n ijk_vec mirrorfac is_pec fabbox idim iside field =
     (if \<not> is_pec idim iside then Some field
      else
        let iv_mirror = mirror_cell mirrorfac ijk_vec idim iside in
        if ijk_vec = iv_mirror then
          (let iv_inner = iv_mirror[idim := iv_mirror ! idim + (if iside = 0 then 1 else - 1)] in
           if contains fabbox iv_inner then
             do { v \<leftarrow> field (iv_inner, n); a4_set field (ijk_vec, n) v }
           else Some field)
        else if contains fabbox iv_mirror then
          do { v \<leftarrow> field (ijk_vec, n); a4_set field (iv_mirror, n) v }
        else Some field)"

definition SetNeumannOnPEC ::
  "WarpXDim \<Rightarrow> int \<Rightarrow> IntVect \<Rightarrow> field_cell Array4 \<Rightarrow> (nat \<Rightarrow> nat \<Rightarrow> int)
     \<Rightarrow> (nat \<Rightarrow> nat \<Rightarrow> bool) \<Rightarrow> Box \<Rightarrow> field_cell Array4 option" where
  "SetNeumannOnPEC geom n ijk_vec field mirrorfac is_pec fabbox =
     for_sides (AMREX_SPACEDIM geom)
       (\<lambda>idim iside st. st \<bind> neumann_side n ijk_vec mirrorfac is_pec fabbox idim iside)
       (Some field)"

text \<open>The axes and sides the loop nest visits, in order.\<close>

definition sides :: "nat \<Rightarrow> (nat \<times> nat) list" where
  "sides ndim = concat (map (\<lambda>idim. [(idim, 0), (idim, 1)]) [0..<ndim])"

text \<open>
  What step 1 of \<open>SetRhoOrJfieldFromPEC\<close> leaves in the interior cell, starting from the
  value \<open>v0\<close>: side after side, \<open>0\<close> where the cell is its own mirror, else the value
  plus \<open>psign\<close> times what the array held in the mirror guard cell, where that cell exists.
\<close>

definition rho_folded_value ::
  "nat \<Rightarrow> int \<Rightarrow> IntVect \<Rightarrow> field_cell Array4 \<Rightarrow> (nat \<Rightarrow> nat \<Rightarrow> int) \<Rightarrow> (nat \<Rightarrow> nat \<Rightarrow> real)
     \<Rightarrow> (nat \<Rightarrow> nat \<Rightarrow> bool) \<Rightarrow> Box \<Rightarrow> real \<Rightarrow> real" where
  "rho_folded_value ndim n ijk_vec field mirrorfac psign is_pec fabbox v0 =
     for_sides ndim
       (\<lambda>idim iside v.
          if \<not> is_pec idim iside then v
          else if ijk_vec = mirror_cell mirrorfac ijk_vec idim iside then 0
          else if contains fabbox (mirror_cell mirrorfac ijk_vec idim iside)
            then v + psign idim iside * the (field (mirror_cell mirrorfac ijk_vec idim iside, n))
          else v)
       v0"

text \<open>The writes of step 2, as a function on arrays.\<close>

definition rho_guard_write ::
  "int \<Rightarrow> IntVect \<Rightarrow> (nat \<Rightarrow> nat \<Rightarrow> int) \<Rightarrow> (nat \<Rightarrow> nat \<Rightarrow> bool) \<Rightarrow> (nat \<Rightarrow> bool) \<Rightarrow> Box \<Rightarrow> real
     \<Rightarrow> nat \<times> nat \<Rightarrow> field_cell Array4 \<Rightarrow> field_cell Array4" where
  "rho_guard_write n ijk_vec mirrorfac is_pec tangent_to_bndy fabbox v1 =
     (\<lambda>(idim, iside) F.
        if is_pec idim iside \<and> ijk_vec \<noteq> mirror_cell mirrorfac ijk_vec idim iside
           \<and> contains fabbox (mirror_cell mirrorfac ijk_vec idim iside)
        then F((mirror_cell mirrorfac ijk_vec idim iside, n) \<mapsto>
               (if tangent_to_bndy idim then - v1 else v1))
        else F)"


section \<open>Properties\<close>

subsection \<open>Sorting utilities\<close>

lemma fill_integers_fold:
  "n \<le> length v \<Longrightarrow>
   fold (\<lambda>i data. data[i := int i]) [0..<n] v = map int [0..<n] @ drop n v"
proof (induction n)
  case 0
  then show ?case by simp
next
  case (Suc n)
  then have "n < length v" by simp
  then have "(map int [0..<n] @ drop n v)[n := int n] = map int [0..<n] @ int n # drop (Suc n) v"
    by (simp add: list_update_append Cons_nth_drop_Suc [symmetric] del: upt_Suc)
  with Suc show ?case by simp
qed

lemma fillWithConsecutiveIntegers_eq:
  "fillWithConsecutiveIntegers v = map int [0..<length v]"
  by (simp add: fillWithConsecutiveIntegers_def fill_integers_fold)

lemma fill_real_fold_id: "fold (\<lambda>i vec. vec) xs v = v"
  by (induction xs) simp_all

lemma fillWithConsecutiveReal_unchanged:
  "fillWithConsecutiveReal v begin0 increment N = v"
  by (simp add: fillWithConsecutiveReal_def Let_def fill_real_fold_id)

text \<open>
  C10. After \<open>fillWithConsecutiveReal(v, begin, increment, N)\<close> element \<open>i\<close> should
  hold \<open>begin + i*increment\<close>. The code stores nothing: on the vector
  \<open>[0, 0, 0]\<close> with \<open>begin = 1\<close>, \<open>increment = 2\<close>, \<open>N = 3\<close> it returns \<open>[0, 0, 0]\<close>
  and not \<open>[1, 3, 5]\<close>, while the integer sibling does fill its vector.
\<close>

theorem fillWithConsecutiveReal_stores_nothing:
  "fillWithConsecutiveReal [0, 0, 0] 1 2 3 = [0, 0, 0]
   \<and> fillWithConsecutiveReal [0, 0, 0] 1 2 3 \<noteq> map (\<lambda>i. 1 + real i * 2) [0..<3]
   \<and> fillWithConsecutiveIntegers [7, 7, 7] = [0, 1, 2]"
proof -
  have a: "fillWithConsecutiveReal [0, 0, 0] 1 2 3 = [0, 0, 0]"
    by (rule fillWithConsecutiveReal_unchanged)
  have b: "map (\<lambda>i. 1 + real i * 2) [0..<3] = [1, 3, 5]"
    by (simp add: upt_rec)
  have c: "fillWithConsecutiveIntegers [7, 7, 7] = [0, 1, 2]"
    by (simp add: fillWithConsecutiveIntegers_eq upt_rec)
  show ?thesis using a b c by simp
qed

lemma fold_bind_None: "fold (\<lambda>x st. st \<bind> f x) xs None = None"
  by (induction xs) simp_all

lemma apply_adds_Nil [simp]: "apply_adds [] arr = Some arr"
  by (simp add: apply_adds_def)

lemma apply_adds_Cons: "apply_adds ((c, v) # adds) arr = AddNoRet arr c v \<bind> apply_adds adds"
proof (cases "AddNoRet arr c v")
  case None
  then show ?thesis by (simp add: apply_adds_def fold_bind_None)
next
  case (Some a)
  then show ?thesis by (simp add: apply_adds_def)
qed

lemma apply_adds_append: "apply_adds (xs @ ys) arr = apply_adds xs arr \<bind> apply_adds ys"
proof (induction xs arbitrary: arr)
  case Nil
  then show ?case by simp
next
  case (Cons x xs)
  obtain c v where x: "x = (c, v)" by (cases x)
  show ?case
    by (cases "AddNoRet arr c v") (simp_all add: x apply_adds_Cons Cons.IH)
qed

lemma AddNoRet_apply_adds: "AddNoRet a c v = apply_adds [(c, v)] a"
  by (cases "AddNoRet a c v") (simp_all add: apply_adds_Cons)

lemma fold_apply_adds:
  "fold (\<lambda>x st. st \<bind> apply_adds (f x)) xs st = st \<bind> apply_adds (concat (map f xs))"
proof (induction xs arbitrary: st)
  case Nil
  then show ?case by simp
next
  case (Cons x xs)
  show ?case
    by (cases st) (simp_all add: Cons.IH apply_adds_append)
qed

lemma apply_adds_char:
  "apply_adds adds arr =
     (if fst ` set adds \<subseteq> dom arr
      then Some (\<lambda>c. map_option (\<lambda>x. x + contrib adds c) (arr c))
      else None)"
proof (induction adds arbitrary: arr)
  case Nil
  show ?case by (simp add: contrib_def option.map_ident)
next
  case (Cons x adds)
  obtain c v where x: "x = (c, v)" by (cases x)
  show ?case
  proof (cases "arr c")
    case None
    then show ?thesis by (auto simp: x apply_adds_Cons AddNoRet_def)
  next
    case (Some old)
    have d: "dom (arr(c \<mapsto> old + v)) = dom arr" using Some by auto
    have s: "fst ` set (x # adds) \<subseteq> dom arr \<longleftrightarrow> fst ` set adds \<subseteq> dom arr"
      using Some by (auto simp: x)
    have "apply_adds (x # adds) arr = apply_adds adds (arr(c \<mapsto> old + v))"
      using Some by (simp add: x apply_adds_Cons AddNoRet_def)
    also have "\<dots> = (if fst ` set adds \<subseteq> dom arr
        then Some (\<lambda>c'. map_option (\<lambda>y. y + contrib adds c') ((arr(c \<mapsto> old + v)) c'))
        else None)"
      unfolding Cons.IH d by simp
    also have "\<dots> = (if fst ` set (x # adds) \<subseteq> dom arr
        then Some (\<lambda>c'. map_option (\<lambda>y. y + contrib (x # adds) c') (arr c'))
        else None)"
      unfolding s using Some by (auto simp: x contrib_def fun_eq_iff)
    finally show ?thesis .
  qed
qed

lemma rz_direction_total: "rz_direction xp yp = Some (rz_dir xp yp)"
  by (simp add: rz_direction_def rz_dir_def checked_div_def Let_def)

lemma apply_adds_Nil_fun: "apply_adds [] = Some"
  by (rule ext) simp

lemma apply_adds_single_fun: "apply_adds [(c, v)] = (\<lambda>a. AddNoRet a c v)"
  by (rule ext) (simp add: AddNoRet_apply_adds)

lemma fold_apply_adds_fun:
  "fold (\<lambda>x st. st \<bind> apply_adds (f x)) xs = (\<lambda>st. st \<bind> apply_adds (concat (map f xs)))"
  by (rule ext) (rule fold_apply_adds)

lemma fold_AddNoRet_fun:
  "fold (\<lambda>x st. st \<bind> (\<lambda>a. AddNoRet a (c x) (v x))) xs
     = (\<lambda>st. st \<bind> apply_adds (map (\<lambda>x. (c x, v x)) xs))"
proof -
  have "fold (\<lambda>x st. st \<bind> (\<lambda>a. AddNoRet a (c x) (v x))) xs
          = fold (\<lambda>x st. st \<bind> apply_adds [(c x, v x)]) xs"
    by (simp add: AddNoRet_apply_adds)
  also have "\<dots> = (\<lambda>st. st \<bind> apply_adds (concat (map (\<lambda>x. [(c x, v x)]) xs)))"
    by (rule fold_apply_adds_fun)
  also have "concat (map (\<lambda>x. [(c x, v x)]) xs) = map (\<lambda>x. (c x, v x)) xs"
    by (induction xs) simp_all
  finally show ?thesis .
qed

lemma rz_mode_fold:
  "fold (\<lambda>imode (st, xy).
            (do { a \<leftarrow> st;
                  b \<leftarrow> AddNoRet a (ci, ck, 0, 2 * int imode - 1) (2 * w * Re xy);
                  AddNoRet b (ci, ck, 0, 2 * int imode) (2 * w * Im xy) },
             xy * xy0))
        [Suc 0..<n] (Some arr, xy0)
   = (apply_adds (concat (map (\<lambda>imode. [((ci, ck, 0, 2 * int imode - 1), 2 * w * Re (xy0 ^ imode)),
                            ((ci, ck, 0, 2 * int imode), 2 * w * Im (xy0 ^ imode))]) [Suc 0..<n])) arr,
      xy0 ^ (max 1 n))"
  (is "fold ?body [Suc 0..<n] ?s0 = (apply_adds (concat (map ?g [Suc 0..<n])) arr, _)")
proof (induction n)
  case 0
  show ?case by simp
next
  case (Suc n)
  show ?case
  proof (cases "n = 0")
    case True
    then show ?thesis by simp
  next
    case False
    then have u: "[Suc 0..<Suc n] = [Suc 0..<n] @ [n]" and m: "max 1 n = n" "max 1 (Suc n) = Suc n"
      by auto
    have "fold ?body [Suc 0..<Suc n] ?s0 = ?body n (fold ?body [Suc 0..<n] ?s0)"
      unfolding u by simp
    also have "\<dots> = ?body n (apply_adds (concat (map ?g [Suc 0..<n])) arr, xy0 ^ n)"
      unfolding Suc.IH m ..
    also have "\<dots> = (apply_adds (concat (map ?g [Suc 0..<n])) arr \<bind> apply_adds (?g n), xy0 ^ Suc n)"
    proof -
      have "\<And>a. AddNoRet a (ci, ck, 0, 2 * int n - 1) (2 * w * Re (xy0 ^ n)) \<bind>
              (\<lambda>b. AddNoRet b (ci, ck, 0, 2 * int n) (2 * w * Im (xy0 ^ n))) = apply_adds (?g n) a"
        by (simp add: apply_adds_Cons apply_adds_single_fun)
      then show ?thesis by simp
    qed
    also have "apply_adds (concat (map ?g [Suc 0..<n])) arr \<bind> apply_adds (?g n)
       = apply_adds (concat (map ?g [Suc 0..<Suc n])) arr"
      unfolding u by (simp add: apply_adds_append)
    finally show ?thesis unfolding m .
  qed
qed

lemma rz_mode_loop_adds:
  "rz_mode_loop n_modes ci ck w xy0 arr = apply_adds (mode_adds n_modes ci ck w xy0) arr"
  by (simp add: rz_mode_loop_def mode_adds_def rz_mode_fold)

lemma deposit_particle_adds:
  "deposit_particle geom depos_order args ip arr
     = apply_adds (particle_adds geom depos_order args ip) arr"
proof (cases geom)
  case DIM_1D_Z
  then show ?thesis
    by (simp add: deposit_particle_def particle_adds_def Let_def split_beta
        fold_AddNoRet_fun del: upt_Suc)
next
  case DIM_XZ
  then show ?thesis
    by (simp add: deposit_particle_def particle_adds_def Let_def split_beta
        fold_AddNoRet_fun fold_apply_adds_fun del: upt_Suc)
next
  case DIM_RZ
  have body: "\<And>c v n ci ck w xy0. (\<lambda>st. st \<bind> (\<lambda>a. AddNoRet a c v \<bind> rz_mode_loop n ci ck w xy0))
     = (\<lambda>st. st \<bind> apply_adds ((c, v) # mode_adds n ci ck w xy0))"
  proof (rule ext)
    fix c v n ci ck w xy0 and st :: "rho_cell Array4 option"
    have "\<And>a. AddNoRet a c v \<bind> rz_mode_loop n ci ck w xy0 = apply_adds ((c, v) # mode_adds n ci ck w xy0) a"
      by (simp add: apply_adds_Cons rz_mode_loop_adds [abs_def] cong: Option.bind_cong)
    then show "st \<bind> (\<lambda>a. AddNoRet a c v \<bind> rz_mode_loop n ci ck w xy0)
       = st \<bind> apply_adds ((c, v) # mode_adds n ci ck w xy0)"
      by (cases st) simp_all
  qed
  from DIM_RZ show ?thesis
    by (simp add: deposit_particle_def particle_adds_def Let_def split_beta
        rz_direction_total body fold_apply_adds_fun del: upt_Suc)
next
  case DIM_3D
  then show ?thesis
    by (simp add: deposit_particle_def particle_adds_def Let_def split_beta
        fold_AddNoRet_fun fold_apply_adds_fun del: upt_Suc)
qed

lemma compute_shape_factor_length:
  "length (snd (compute_shape_factor depos_order x)) = Suc depos_order"
  by (simp add: compute_shape_factor_def Let_def)

lemma cubic_unity:
  "1/6 * (1 - t) * (1 - t) * (1 - t) + (2/3 - t * t * (1 - t / 2))
     + (2/3 - (1 - t) * (1 - t) * (1 - 1/2 * (1 - t))) + 1/6 * t * t * t = (1::real)"
  by (simp add: field_simps)

lemma quadratic_unity:
  "1/2 * (1/2 - t) * (1/2 - t) + (3/4 - t * t) + 1/2 * (1/2 + t) * (1/2 + t) = (1::real)"
  by (simp add: field_simps)

lemma compute_shape_factor_sum:
  assumes "depos_order \<le> 3"
  shows "sum_list (snd (compute_shape_factor depos_order x)) = 1"
proof -
  from assms consider "depos_order = 0" | "depos_order = 1" | "depos_order = 2" | "depos_order = 3"
    by linarith
  then show ?thesis
  proof cases
    case 1
    then show ?thesis by (simp add: compute_shape_factor_def Let_def)
  next
    case 2
    then show ?thesis by (simp add: compute_shape_factor_def Let_def)
  next
    case 3
    then show ?thesis
      using quadratic_unity [of "x - of_int \<lfloor>x + 1/2\<rfloor>"]
      by (simp add: compute_shape_factor_def Let_def)
  next
    case 4
    then show ?thesis
      using cubic_unity [of "x - of_int \<lfloor>x\<rfloor>"]
      by (simp add: compute_shape_factor_def Let_def)
  qed
qed

lemma shape_on_axis_length:
  "length (snd (shape_on_axis depos_order ty x)) = Suc depos_order"
  by (cases ty) (simp_all add: shape_on_axis_def compute_shape_factor_length)

lemma shape_on_axis_sum:
  "depos_order \<le> 3 \<Longrightarrow> sum_list (snd (shape_on_axis depos_order ty x)) = 1"
  by (cases ty) (simp_all add: shape_on_axis_def compute_shape_factor_sum)

lemma sum_list_nth_upt:
  "length xs = n \<Longrightarrow> sum_list (map (\<lambda>i. f (xs ! i)) [0..<n]) = sum_list (map f xs)"
proof -
  assume "length xs = n"
  then have "map (\<lambda>i. f (xs ! i)) [0..<n] = map f xs"
    by (auto simp: list_eq_iff_nth_eq)
  then show ?thesis by simp
qed

lemma sum_list_scaled:
  "length (xs :: real list) = n \<Longrightarrow> sum_list (map (\<lambda>i. a * xs ! i * b) [0..<n]) = a * sum_list xs * b"
proof -
  assume l: "length xs = n"
  have "sum_list (map (\<lambda>i. a * xs ! i * b) [0..<n]) = sum_list (map (\<lambda>x. a * x * b) xs)"
    using sum_list_nth_upt [OF l, of "\<lambda>x. a * x * b"] .
  also have "\<dots> = a * sum_list xs * b"
    by (induction xs) (simp_all add: algebra_simps)
  finally show ?thesis .
qed

lemma contrib_Cons:
  "contrib (x # adds) c = (if fst x = c then snd x else 0) + contrib adds c"
  by (simp add: contrib_def)

lemma sum_contrib:
  "finite D \<Longrightarrow> (\<Sum>c\<in>D. contrib adds c) = sum_list (map snd (filter (\<lambda>cv. fst cv \<in> D) adds))"
proof (induction adds)
  case Nil
  then show ?case by (simp add: contrib_def)
next
  case (Cons x adds)
  have "(\<Sum>c\<in>D. contrib (x # adds) c)
        = (\<Sum>c\<in>D. if fst x = c then snd x else 0) + (\<Sum>c\<in>D. contrib adds c)"
    by (simp add: contrib_Cons sum.distrib)
  also have "(\<Sum>c\<in>D. if fst x = c then snd x else 0) = (if fst x \<in> D then snd x else 0)"
    using Cons.prems by simp
  finally show ?case using Cons by simp
qed

lemma mode_adds_comp0:
  "filter (\<lambda>cv. comp_of (fst cv) = 0) (mode_adds n ci ck w xy0) = []"
  by (auto simp: filter_empty_conv mode_adds_def comp_of_def)

lemma sum_list_weights:
  "length (xs :: real list) = Suc n \<Longrightarrow> sum_list (map (\<lambda>i. xs ! i * b) [0..<n]) + xs ! n * b = sum_list xs * b"
  using sum_list_scaled [of xs "Suc n" 1 b] by simp

lemma sum_list_concat_real: "sum_list (concat xss) = sum_list (map sum_list (xss :: real list list))"
  by (induction xss) simp_all

lemma sum_list_upt_sum: "sum_list (map f [0..<n]) = (\<Sum>i<n. f i)"
  by (simp add: interv_sum_list_conv_sum_set_nat atLeast0LessThan)

lemma sum_nth_sum_list: "length (xs :: real list) = n \<Longrightarrow> (\<Sum>i<n. xs ! i) = sum_list xs"
  by (simp add: sum_list_sum_nth atLeast0LessThan)

lemma tensor2_sum:
  "(\<Sum>iz<N. \<Sum>ix<N. sx ix * sz iz * wq) = (\<Sum>ix<N. sx ix) * (\<Sum>iz<N. sz iz) * (wq::real)"
proof -
  have "(\<Sum>ix<N. sx ix) * (\<Sum>iz<N. sz iz) * wq = (\<Sum>ix<N. \<Sum>iz<N. sx ix * sz iz) * wq"
    by (simp add: sum_product)
  also have "\<dots> = (\<Sum>iz<N. \<Sum>ix<N. sx ix * sz iz) * wq"
    by (subst sum.swap) simp
  also have "\<dots> = (\<Sum>iz<N. \<Sum>ix<N. sx ix * sz iz * wq)"
    by (simp add: sum_distrib_right)
  finally show ?thesis by simp
qed

lemma tensor3_sum:
  "(\<Sum>iz<N. \<Sum>iy<N. \<Sum>ix<N. sx ix * sy iy * sz iz * wq)
     = (\<Sum>ix<N. sx ix) * (\<Sum>iy<N. sy iy) * (\<Sum>iz<N. sz iz) * (wq::real)"
proof -
  have "(\<Sum>iz<N. \<Sum>iy<N. \<Sum>ix<N. sx ix * sy iy * sz iz * wq)
      = (\<Sum>iz<N. (\<Sum>iy<N. \<Sum>ix<N. sx ix * sy iy * 1) * (sz iz * wq))"
    by (simp add: sum_distrib_right mult.assoc)
  also have "\<dots> = (\<Sum>iz<N. (\<Sum>ix<N. sx ix) * (\<Sum>iy<N. sy iy) * 1 * (sz iz * wq))"
    unfolding tensor2_sum ..
  also have "\<dots> = (\<Sum>ix<N. sx ix) * (\<Sum>iy<N. sy iy) * (\<Sum>iz<N. sz iz) * wq"
    by (simp add: sum_distrib_left sum_distrib_right mult.assoc)
  finally show ?thesis .
qed

lemma particle_adds_comp0_sum:
  assumes "depos_order \<le> 3"
  shows "sum_list (map snd (filter (\<lambda>cv. comp_of (fst cv) = 0) (particle_adds geom depos_order args ip)))
         = particle_wq geom args ip"
proof -
  obtain xp yp zp where pos: "GetPosition args ip = (xp, yp, zp)" by (cases "GetPosition args ip")
  obtain dx0 dx1 dx2 where d: "dx args = (dx0, dx1, dx2)" by (cases "dx args")
  obtain xmin ymin zmin where m: "xyzmin args = (xmin, ymin, zmin)" by (cases "xyzmin args")
  obtain lo_x lo_y lo_z where l: "lo args = (lo_x, lo_y, lo_z)" by (cases "lo args")
  define wq where "wq = particle_wq geom args ip"
  note len = shape_on_axis_length
  note sm = shape_on_axis_sum [OF assms]
  show ?thesis
  proof (cases geom)
    case DIM_1D_Z
    obtain k sz where z: "shape_on_axis depos_order (rho_type args (WARPX_ZINDEX geom)) ((zp - zmin) * (1 / dx2)) = (k, sz)"
      by (cases "shape_on_axis depos_order (rho_type args (WARPX_ZINDEX geom)) ((zp - zmin) * (1 / dx2))")
    have lz: "length sz = Suc depos_order" and sz: "sum_list sz = 1"
      using len [of depos_order "rho_type args (WARPX_ZINDEX geom)" "(zp - zmin) * (1 / dx2)"]
        sm [of "rho_type args (WARPX_ZINDEX geom)" "(zp - zmin) * (1 / dx2)"] z by simp_all
    have "particle_adds geom depos_order args ip
        = map (\<lambda>iz. ((lo_x + k + int iz, 0, 0, 0), sz ! iz * wq)) [0..<Suc depos_order]"
      using DIM_1D_Z z by (simp add: particle_adds_def Let_def pos d m l wq_def del: upt_Suc)
    then have "sum_list (map snd (filter (\<lambda>cv. comp_of (fst cv) = 0) (particle_adds geom depos_order args ip)))
        = sum_list (map (\<lambda>iz. 1 * sz ! iz * wq) [0..<Suc depos_order])"
      by (simp add: filter_map comp_def comp_of_def del: upt_Suc)
    also have "\<dots> = 1 * sum_list sz * wq"
      by (rule sum_list_scaled [OF lz])
    finally show ?thesis by (simp add: sz wq_def)
  next
    case DIM_XZ
    obtain k sz where z: "shape_on_axis depos_order (rho_type args (WARPX_ZINDEX geom)) ((zp - zmin) * (1 / dx2)) = (k, sz)"
      by (cases "shape_on_axis depos_order (rho_type args (WARPX_ZINDEX geom)) ((zp - zmin) * (1 / dx2))")
    obtain i sx where x: "shape_on_axis depos_order (rho_type args 0) ((xp - xmin) * (1 / dx0)) = (i, sx)"
      by (cases "shape_on_axis depos_order (rho_type args 0) ((xp - xmin) * (1 / dx0))")
    have lz: "length sz = Suc depos_order" and sz: "sum_list sz = 1"
      using len [of depos_order "rho_type args (WARPX_ZINDEX geom)" "(zp - zmin) * (1 / dx2)"]
        sm [of "rho_type args (WARPX_ZINDEX geom)" "(zp - zmin) * (1 / dx2)"] z by simp_all
    have lx: "length sx = Suc depos_order" and sx: "sum_list sx = 1"
      using len [of depos_order "rho_type args 0" "(xp - xmin) * (1 / dx0)"]
        sm [of "rho_type args 0" "(xp - xmin) * (1 / dx0)"] x by simp_all
    have "particle_adds geom depos_order args ip
        = concat (map (\<lambda>iz. map (\<lambda>ix.
                  ((lo_x + i + int ix, lo_y + k + int iz, 0, 0), sx ! ix * sz ! iz * wq))
                [0..<Suc depos_order]) [0..<Suc depos_order])"
      using DIM_XZ z x by (simp add: particle_adds_def Let_def pos d m l wq_def del: upt_Suc)
    then have "sum_list (map snd (filter (\<lambda>cv. comp_of (fst cv) = 0) (particle_adds geom depos_order args ip)))
        = (\<Sum>iz<Suc depos_order. \<Sum>ix<Suc depos_order. sx ! ix * sz ! iz * wq)"
      by (simp add: filter_concat filter_map comp_def comp_of_def map_concat sum_list_concat_real
          sum_list_upt_sum del: upt_Suc sum.lessThan_Suc)
    also have "\<dots> = sum_list sx * sum_list sz * wq"
      unfolding tensor2_sum sum_nth_sum_list [OF lx] sum_nth_sum_list [OF lz] ..
    finally show ?thesis by (simp add: sx sz wq_def)
  next
    case DIM_RZ
    obtain k sz where z: "shape_on_axis depos_order (rho_type args (WARPX_ZINDEX geom)) ((zp - zmin) * (1 / dx2)) = (k, sz)"
      by (cases "shape_on_axis depos_order (rho_type args (WARPX_ZINDEX geom)) ((zp - zmin) * (1 / dx2))")
    obtain i sx where x: "shape_on_axis depos_order (rho_type args 0) ((sqrt (xp * xp + yp * yp) - xmin) * (1 / dx0)) = (i, sx)"
      by (cases "shape_on_axis depos_order (rho_type args 0) ((sqrt (xp * xp + yp * yp) - xmin) * (1 / dx0))")
    obtain ct st where dir: "rz_dir xp yp = (ct, st)" by (cases "rz_dir xp yp")
    have lz: "length sz = Suc depos_order" and sz: "sum_list sz = 1"
      using len [of depos_order "rho_type args (WARPX_ZINDEX geom)" "(zp - zmin) * (1 / dx2)"]
        sm [of "rho_type args (WARPX_ZINDEX geom)" "(zp - zmin) * (1 / dx2)"] z by simp_all
    have lx: "length sx = Suc depos_order" and sx: "sum_list sx = 1"
      using len [of depos_order "rho_type args 0" "(sqrt (xp * xp + yp * yp) - xmin) * (1 / dx0)"]
        sm [of "rho_type args 0" "(sqrt (xp * xp + yp * yp) - xmin) * (1 / dx0)"] x by simp_all
    have "particle_adds geom depos_order args ip
        = concat (map (\<lambda>iz. concat (map (\<lambda>ix.
                  ((lo_x + i + int ix, lo_y + k + int iz, 0, 0), sx ! ix * sz ! iz * wq)
                  # mode_adds (n_rz_azimuthal_modes args) (lo_x + i + int ix) (lo_y + k + int iz)
                      (sx ! ix * sz ! iz * wq) (Complex ct st))
                [0..<Suc depos_order])) [0..<Suc depos_order])"
      using DIM_RZ z x dir by (simp add: particle_adds_def Let_def pos d m l wq_def del: upt_Suc)
    then have "sum_list (map snd (filter (\<lambda>cv. comp_of (fst cv) = 0) (particle_adds geom depos_order args ip)))
        = (\<Sum>iz<Suc depos_order. \<Sum>ix<Suc depos_order. sx ! ix * sz ! iz * wq)"
      by (simp add: filter_concat filter_map comp_def mode_adds_comp0 map_concat sum_list_concat_real
          sum_list_upt_sum comp_of_def [of "(a, b, c, 0)" for a b c] del: upt_Suc sum.lessThan_Suc)
    also have "\<dots> = sum_list sx * sum_list sz * wq"
      unfolding tensor2_sum sum_nth_sum_list [OF lx] sum_nth_sum_list [OF lz] ..
    finally show ?thesis by (simp add: sx sz wq_def)
  next
    case DIM_3D
    obtain k sz where z: "shape_on_axis depos_order (rho_type args (WARPX_ZINDEX geom)) ((zp - zmin) * (1 / dx2)) = (k, sz)"
      by (cases "shape_on_axis depos_order (rho_type args (WARPX_ZINDEX geom)) ((zp - zmin) * (1 / dx2))")
    obtain i sx where x: "shape_on_axis depos_order (rho_type args 0) ((xp - xmin) * (1 / dx0)) = (i, sx)"
      by (cases "shape_on_axis depos_order (rho_type args 0) ((xp - xmin) * (1 / dx0))")
    obtain j sy where y: "shape_on_axis depos_order (rho_type args 1) ((yp - ymin) * (1 / dx1)) = (j, sy)"
      by (cases "shape_on_axis depos_order (rho_type args 1) ((yp - ymin) * (1 / dx1))")
    have lz: "length sz = Suc depos_order" and sz: "sum_list sz = 1"
      using len [of depos_order "rho_type args (WARPX_ZINDEX geom)" "(zp - zmin) * (1 / dx2)"]
        sm [of "rho_type args (WARPX_ZINDEX geom)" "(zp - zmin) * (1 / dx2)"] z by simp_all
    have lx: "length sx = Suc depos_order" and sx: "sum_list sx = 1"
      using len [of depos_order "rho_type args 0" "(xp - xmin) * (1 / dx0)"]
        sm [of "rho_type args 0" "(xp - xmin) * (1 / dx0)"] x by simp_all
    have ly: "length sy = Suc depos_order" and sy: "sum_list sy = 1"
      using len [of depos_order "rho_type args 1" "(yp - ymin) * (1 / dx1)"]
        sm [of "rho_type args 1" "(yp - ymin) * (1 / dx1)"] y by simp_all
    have "particle_adds geom depos_order args ip
        = concat (map (\<lambda>iz. concat (map (\<lambda>iy. map (\<lambda>ix.
                  ((lo_x + i + int ix, lo_y + j + int iy, lo_z + k + int iz, 0),
                   sx ! ix * sy ! iy * sz ! iz * wq))
                [0..<Suc depos_order]) [0..<Suc depos_order])) [0..<Suc depos_order])"
      using DIM_3D z x y by (simp add: particle_adds_def Let_def pos d m l wq_def del: upt_Suc)
    then have "sum_list (map snd (filter (\<lambda>cv. comp_of (fst cv) = 0) (particle_adds geom depos_order args ip)))
        = (\<Sum>iz<Suc depos_order. \<Sum>iy<Suc depos_order. \<Sum>ix<Suc depos_order. sx ! ix * sy ! iy * sz ! iz * wq)"
      by (simp add: filter_concat filter_map comp_def comp_of_def map_concat sum_list_concat_real
          sum_list_upt_sum del: upt_Suc sum.lessThan_Suc)
    also have "\<dots> = sum_list sx * sum_list sy * sum_list sz * wq"
      unfolding tensor3_sum sum_nth_sum_list [OF lx] sum_nth_sum_list [OF ly] sum_nth_sum_list [OF lz] ..
    finally show ?thesis by (simp add: sx sy sz wq_def)
  qed
qed

lemma invvol_cell_volume:
  assumes "d = (dx0, dx1, dx2)" "dx0 \<noteq> 0" "dx1 \<noteq> 0" "dx2 \<noteq> 0"
  shows "invvol geom d * cell_volume geom d = 1"
  using assms by (cases geom) (simp_all add: invvol_def cell_volume_def)

lemma single_particle_kernel:
  "doChargeDepositionShapeN geom depos_order args 1 rho_arr
     = apply_adds (particle_adds geom depos_order args 0) rho_arr"
  by (simp add: doChargeDepositionShapeN_def deposit_particle_adds)

lemma array_total_apply_adds:
  assumes fin: "finite (dom arr)"
    and zero: "\<forall>c\<in>dom arr. arr c = Some 0"
    and inr: "fst ` set adds \<subseteq> dom arr"
  shows "\<exists>G. apply_adds adds arr = Some G
           \<and> array_total G n = sum_list (map snd (filter (\<lambda>cv. comp_of (fst cv) = n) adds))"
proof -
  define G where "G = (\<lambda>c. map_option (\<lambda>x. x + contrib adds c) (arr c))"
  have r: "apply_adds adds arr = Some G"
    using inr by (simp add: apply_adds_char G_def)
  have dG: "dom G = dom arr" by (auto simp: G_def)
  let ?D = "{c \<in> dom arr. comp_of c = n}"
  have fD: "finite ?D" using fin by simp
  have "array_total G n = (\<Sum>c\<in>?D. the (G c))"
    by (simp add: array_total_def dG)
  also have "\<dots> = (\<Sum>c\<in>?D. contrib adds c)"
  proof (rule sum.cong [OF refl])
    fix c assume "c \<in> ?D"
    then have "arr c = Some 0" using zero by auto
    then show "the (G c) = contrib adds c" by (simp add: G_def)
  qed
  also have "\<dots> = sum_list (map snd (filter (\<lambda>cv. fst cv \<in> ?D) adds))"
    by (rule sum_contrib [OF fD])
  also have "filter (\<lambda>cv. fst cv \<in> ?D) adds = filter (\<lambda>cv. comp_of (fst cv) = n) adds"
    using inr by (intro filter_cong refl) auto
  finally show ?thesis using r by blast
qed

text \<open>
  C1. Charge conservation of the direct kernel. One particle (no ionization array) is
  deposited alone on an all-zero array that holds its stencil, for any geometry, any
  staggering \<open>rho_type\<close>, any position and any order up to 3. The kernel returns an
  array whose component 0 sums to \<open>wq = q*w*invvol\<close>, and that total times the cell
  volume is \<open>q*w\<close>.
\<close>

theorem charge_conservation:
  assumes "depos_order \<le> 3"
    and "ion_lev args = None"
    and "dx args = (dx0, dx1, dx2)" and "dx0 \<noteq> 0" and "dx1 \<noteq> 0" and "dx2 \<noteq> 0"
    and "finite (dom rho_arr)" and "\<forall>c\<in>dom rho_arr. rho_arr c = Some 0"
    and "set (deposit_cells geom depos_order args 0) \<subseteq> dom rho_arr"
  shows "\<exists>G. doChargeDepositionShapeN geom depos_order args 1 rho_arr = Some G
           \<and> array_total G 0 = q args * wp args 0 * invvol geom (dx args)
           \<and> array_total G 0 * cell_volume geom (dx args) = q args * wp args 0"
proof -
  have inr: "fst ` set (particle_adds geom depos_order args 0) \<subseteq> dom rho_arr"
    using assms(9) by (simp add: deposit_cells_def)
  obtain G where G: "apply_adds (particle_adds geom depos_order args 0) rho_arr = Some G"
    and t: "array_total G 0 = sum_list (map snd (filter (\<lambda>cv. comp_of (fst cv) = 0)
               (particle_adds geom depos_order args 0)))"
    using array_total_apply_adds [OF assms(7,8) inr, of 0] by blast
  have wq: "array_total G 0 = q args * wp args 0 * invvol geom (dx args)"
    unfolding t particle_adds_comp0_sum [OF assms(1)]
    by (simp add: particle_wq_def assms(2))
  have "array_total G 0 * cell_volume geom (dx args)
      = q args * wp args 0 * (invvol geom (dx args) * cell_volume geom (dx args))"
    unfolding wq by simp
  also have "\<dots> = q args * wp args 0"
    using invvol_cell_volume [OF assms(3-6)] by simp
  finally show ?thesis using G wq by (simp add: single_particle_kernel)
qed

lemma example_cells:
  "deposit_cells DIM_XZ 1 (example_particle (13/4) 0) 0
     = [(3, 2, 0, 0), (4, 2, 0, 0), (3, 3, 0, 0), (4, 3, 0, 0)]"
  by (simp add: deposit_cells_def particle_adds_def example_particle_def Let_def shape_on_axis_def
      compute_shape_factor_def WARPX_ZINDEX_def upt_rec)

theorem charge_conservation_witness:
  "\<exists>G. doChargeDepositionShapeN DIM_XZ 1 (example_particle (13/4) 0) 1
          (zero_array ({0..9} \<times> {0..9} \<times> {0} \<times> {0})) = Some G
       \<and> array_total G 0 = q (example_particle (13/4) 0) * wp (example_particle (13/4) 0) 0 * invvol DIM_XZ (dx (example_particle (13/4) 0))
       \<and> array_total G 0 * cell_volume DIM_XZ (dx (example_particle (13/4) 0))
           = q (example_particle (13/4) 0) * wp (example_particle (13/4) 0) 0"
proof -
  have d: "dom (zero_array ({0..9} \<times> {0..9} \<times> {0} \<times> {0::int}) :: rho_cell Array4)
            = {0..9} \<times> {0..9} \<times> {0} \<times> {0}"
    by (auto simp: zero_array_def split: if_splits)
  show ?thesis
  proof (rule charge_conservation [where ?dx0.0 = 1 and ?dx1.0 = 1 and ?dx2.0 = 1])
    show "(1::nat) \<le> 3" by simp
    show "ion_lev (example_particle (13/4) 0) = None" by (simp add: example_particle_def)
    show "dx (example_particle (13/4) 0) = (1, 1, 1)" by (simp add: example_particle_def)
    show "finite (dom (zero_array ({0..9} \<times> {0..9} \<times> {0} \<times> {0::int}) :: rho_cell Array4))"
      unfolding d by simp
    show "\<forall>c\<in>dom (zero_array ({0..9} \<times> {0..9} \<times> {0} \<times> {0::int}) :: rho_cell Array4).
            zero_array ({0..9} \<times> {0..9} \<times> {0} \<times> {0}) c = Some 0"
      by (auto simp: zero_array_def split: if_splits)
    show "set (deposit_cells DIM_XZ 1 (example_particle (13/4) 0) 0)
            \<subseteq> dom (zero_array ({0..9} \<times> {0..9} \<times> {0} \<times> {0::int}) :: rho_cell Array4)"
      unfolding d example_cells by simp
  qed simp_all
qed

lemma contrib_Nil [simp]: "contrib [] c = 0"
  by (simp add: contrib_def)

lemma contrib_append: "contrib (xs @ ys) c = contrib xs c + contrib ys c"
  by (simp add: contrib_def)

lemma contrib_concat: "contrib (concat (map f xs)) c = sum_list (map (\<lambda>x. contrib (f x) c) xs)"
  by (induction xs) (simp_all add: contrib_append)

lemma sum_list_delta_upt:
  "sum_list (map (\<lambda>x. if x = a then f x else (0::real)) [m..<n]) = (if m \<le> a \<and> a < n then f a else 0)"
proof -
  have "sum_list (map (\<lambda>x. if x = a then f x else 0) [m..<n]) = (\<Sum>x\<in>{m..<n}. if x = a then f x else 0)"
    by (simp add: interv_sum_list_conv_sum_set_nat)
  also have "\<dots> = (if a \<in> {m..<n} then f a else 0)"
    by simp
  finally show ?thesis by simp
qed

lemma sum_list_zero: "(\<And>x. x \<in> set xs \<Longrightarrow> f x = 0) \<Longrightarrow> sum_list (map f xs) = (0::real)"
  by (induction xs) simp_all

lemma sum_list_single_upt:
  assumes "\<And>x. m \<le> x \<Longrightarrow> x < n \<Longrightarrow> x \<noteq> a \<Longrightarrow> f x = (0::real)"
  shows "sum_list (map f [m..<n]) = (if m \<le> a \<and> a < n then f a else 0)"
proof -
  have "map f [m..<n] = map (\<lambda>x. if x = a then f x else 0) [m..<n]"
    using assms by (intro map_cong refl) auto
  then have "sum_list (map f [m..<n]) = sum_list (map (\<lambda>x. if x = a then f x else 0) [m..<n])"
    by (rule arg_cong)
  then show ?thesis unfolding sum_list_delta_upt .
qed

lemma contrib_mode_adds_other:
  "(ci', ck') \<noteq> (ci, ck) \<Longrightarrow> contrib (mode_adds n ci ck w xy0) (ci', ck', kk, nc) = 0"
  unfolding mode_adds_def contrib_concat
  by (rule sum_list_zero) (auto simp: contrib_Cons)

lemma contrib_mode_adds_cos:
  assumes "1 \<le> m" "m < nat n"
  shows "contrib (mode_adds n ci ck w xy0) (ci, ck, 0, 2 * int m - 1) = 2 * w * Re (xy0 ^ m)"
proof -
  have "contrib (mode_adds n ci ck w xy0) (ci, ck, 0, 2 * int m - 1)
      = sum_list (map (\<lambda>x. if x = m then 2 * w * Re (xy0 ^ x) else 0) [1..<nat n])"
    unfolding mode_adds_def contrib_concat
    by (intro arg_cong [where f = sum_list] map_cong refl) (auto simp: contrib_Cons)
  then show ?thesis using assms by (simp add: sum_list_delta_upt)
qed

lemma contrib_mode_adds_sin:
  assumes "1 \<le> m" "m < nat n"
  shows "contrib (mode_adds n ci ck w xy0) (ci, ck, 0, 2 * int m) = 2 * w * Im (xy0 ^ m)"
proof -
  have "contrib (mode_adds n ci ck w xy0) (ci, ck, 0, 2 * int m)
      = sum_list (map (\<lambda>x. if x = m then 2 * w * Im (xy0 ^ x) else 0) [1..<nat n])"
    unfolding mode_adds_def contrib_concat
    by (intro arg_cong [where f = sum_list] map_cong refl) (auto simp: contrib_Cons)
  then show ?thesis using assms by (simp add: sum_list_delta_upt)
qed

lemma contrib_mode_adds_comp0:
  "contrib (mode_adds n ci ck w xy0) (ci', ck', kk, 0) = 0"
  unfolding mode_adds_def contrib_concat
proof (rule sum_list_zero)
  fix x assume "x \<in> set [1..<nat n]"
  then have "1 \<le> x" by simp
  then have "2 * int x - 1 \<noteq> 0" "2 * int x \<noteq> 0" by presburger+
  then show "contrib [((ci, ck, 0, 2 * int x - 1), 2 * w * Re (xy0 ^ x)),
                      ((ci, ck, 0, 2 * int x), 2 * w * Im (xy0 ^ x))] (ci', ck', kk, 0) = 0"
    by (simp add: contrib_Cons)
qed

lemma contrib_rz_adds_stencil:
  assumes "ix \<le> depos_order" "iz \<le> depos_order"
  shows "contrib (rz_adds depos_order n ci0 ck0 sx sz wq xy0) (ci0 + int ix, ck0 + int iz, 0, nc)
       = contrib (((ci0 + int ix, ck0 + int iz, 0, 0), sx ! ix * sz ! iz * wq)
                  # mode_adds n (ci0 + int ix) (ck0 + int iz) (sx ! ix * sz ! iz * wq) xy0)
                 (ci0 + int ix, ck0 + int iz, 0, nc)"
    (is "_ = contrib (?blk ix iz) ?c")
proof -
  have other: "contrib (?blk ix' iz') ?c = 0" if "ix' \<noteq> ix \<or> iz' \<noteq> iz" for ix' iz'
    using that by (auto simp: contrib_Cons contrib_mode_adds_other)
  let ?row = "\<lambda>iz'. sum_list (map (\<lambda>ix'. contrib (?blk ix' iz') ?c) [0..<Suc depos_order])"
  have row_other: "?row iz' = 0" if "iz' \<noteq> iz" for iz'
    by (rule sum_list_zero) (use that in \<open>simp add: other\<close>)
  have row: "?row iz = contrib (?blk ix iz) ?c"
    using assms sum_list_single_upt [of 0 "Suc depos_order" ix "\<lambda>ix'. contrib (?blk ix' iz) ?c"]
    by (simp add: other del: upt_Suc)
  have "contrib (rz_adds depos_order n ci0 ck0 sx sz wq xy0) ?c
      = sum_list (map ?row [0..<Suc depos_order])"
    by (simp add: rz_adds_def contrib_concat del: upt_Suc)
  also have "\<dots> = ?row iz"
    using assms sum_list_single_upt [of 0 "Suc depos_order" iz ?row]
    by (simp add: row_other del: upt_Suc)
  finally show ?thesis using row by simp
qed

lemma particle_adds_RZ:
  assumes "GetPosition args ip = (xp, yp, zp)"
    and "dx args = (dx0, dx1, dx2)" and "xyzmin args = (xmin, ymin, zmin)"
    and "lo args = (lo_x, lo_y, lo_z)"
    and "shape_on_axis depos_order (rho_type args 0) ((sqrt (xp * xp + yp * yp) - xmin) * (1 / dx0)) = (i, sx)"
    and "shape_on_axis depos_order (rho_type args (WARPX_ZINDEX DIM_RZ)) ((zp - zmin) * (1 / dx2)) = (k, sz)"
    and "rz_dir xp yp = (ct, st)"
  shows "particle_adds DIM_RZ depos_order args ip
     = rz_adds depos_order (n_rz_azimuthal_modes args) (lo_x + i) (lo_y + k) sx sz
         (particle_wq DIM_RZ args ip) (Complex ct st)"
  using assms by (simp add: particle_adds_def rz_adds_def Let_def del: upt_Suc)

lemma rz_deposit_values:
  assumes pos: "GetPosition args ip = (xp, yp, zp)"
    and d: "dx args = (dx0, dx1, dx2)" and mn: "xyzmin args = (xmin, ymin, zmin)"
    and l: "lo args = (lo_x, lo_y, lo_z)"
    and shx: "shape_on_axis depos_order (rho_type args 0) ((sqrt (xp * xp + yp * yp) - xmin) * (1 / dx0)) = (i, sx)"
    and shz: "shape_on_axis depos_order (rho_type args (WARPX_ZINDEX DIM_RZ)) ((zp - zmin) * (1 / dx2)) = (k, sz)"
    and dir: "rz_dir xp yp = (ct, st)"
    and ix: "ix \<le> depos_order" and iz: "iz \<le> depos_order"
    and m: "1 \<le> m" "int m < n_rz_azimuthal_modes args"
    and inr: "set (deposit_cells DIM_RZ depos_order args ip) \<subseteq> dom arr"
  shows "\<exists>G. deposit_particle DIM_RZ depos_order args ip arr = Some G
     \<and> G (lo_x + i + int ix, lo_y + k + int iz, 0, 0)
         = map_option (\<lambda>a. a + sx ! ix * sz ! iz * particle_wq DIM_RZ args ip)
             (arr (lo_x + i + int ix, lo_y + k + int iz, 0, 0))
     \<and> G (lo_x + i + int ix, lo_y + k + int iz, 0, 2 * int m - 1)
         = map_option (\<lambda>a. a + 2 * (sx ! ix * sz ! iz * particle_wq DIM_RZ args ip) * Re (Complex ct st ^ m))
             (arr (lo_x + i + int ix, lo_y + k + int iz, 0, 2 * int m - 1))
     \<and> G (lo_x + i + int ix, lo_y + k + int iz, 0, 2 * int m)
         = map_option (\<lambda>a. a + 2 * (sx ! ix * sz ! iz * particle_wq DIM_RZ args ip) * Im (Complex ct st ^ m))
             (arr (lo_x + i + int ix, lo_y + k + int iz, 0, 2 * int m))"
proof -
  let ?adds = "particle_adds DIM_RZ depos_order args ip"
  let ?G = "\<lambda>c. map_option (\<lambda>x. x + contrib ?adds c) (arr c)"
  have r: "deposit_particle DIM_RZ depos_order args ip arr = Some ?G"
    using inr by (simp add: deposit_particle_adds apply_adds_char deposit_cells_def)
  note pa = particle_adds_RZ [OF pos d mn l shx shz dir]
  have mm: "m < nat (n_rz_azimuthal_modes args)" using m by linarith
  have ne: "2 * int m - 1 \<noteq> 0" "2 * int m \<noteq> 0" using m by presburger+
  have c0: "contrib ?adds (lo_x + i + int ix, lo_y + k + int iz, 0, 0)
      = sx ! ix * sz ! iz * particle_wq DIM_RZ args ip"
    unfolding pa contrib_rz_adds_stencil [OF ix iz]
    by (simp add: contrib_Cons contrib_mode_adds_comp0)
  have c1: "contrib ?adds (lo_x + i + int ix, lo_y + k + int iz, 0, 2 * int m - 1)
      = 2 * (sx ! ix * sz ! iz * particle_wq DIM_RZ args ip) * Re (Complex ct st ^ m)"
    unfolding pa contrib_rz_adds_stencil [OF ix iz]
    using ne by (simp add: contrib_Cons contrib_mode_adds_cos [OF m(1) mm])
  have c2: "contrib ?adds (lo_x + i + int ix, lo_y + k + int iz, 0, 2 * int m)
      = 2 * (sx ! ix * sz ! iz * particle_wq DIM_RZ args ip) * Im (Complex ct st ^ m)"
    unfolding pa contrib_rz_adds_stencil [OF ix iz]
    using ne by (simp add: contrib_Cons contrib_mode_adds_sin [OF m(1) mm])
  show ?thesis
    unfolding r using c0 c1 c2 by simp
qed

lemma rz_dir_polar:
  assumes "xp = r * cos \<theta>" "yp = r * sin \<theta>" "0 \<le> r" "0 < r \<or> \<theta> = 0"
  shows "sqrt (xp * xp + yp * yp) = r" and "rz_dir xp yp = (cos \<theta>, sin \<theta>)"
proof -
  have e: "cos \<theta> * cos \<theta> + sin \<theta> * sin \<theta> = 1"
    using sin_cos_squared_add2 [of \<theta>] by (simp add: power2_eq_square)
  have "xp * xp + yp * yp = r * r * (cos \<theta> * cos \<theta> + sin \<theta> * sin \<theta>)"
    unfolding assms(1,2) by (simp only: distrib_left mult_ac)
  then have "xp * xp + yp * yp = r\<^sup>2" unfolding e by (simp add: power2_eq_square)
  then show s: "sqrt (xp * xp + yp * yp) = r" using assms(3) by simp
  show "rz_dir xp yp = (cos \<theta>, sin \<theta>)"
  proof (cases "0 < r")
    case True
    then show ?thesis unfolding rz_dir_def s Let_def by (simp add: assms(1,2))
  next
    case False
    then have "r = 0" "\<theta> = 0" using assms(3,4) by auto
    then show ?thesis unfolding rz_dir_def s Let_def by simp
  qed
qed

lemma cis_power_parts:
  "Re (Complex (cos \<theta>) (sin \<theta>) ^ m) = cos (real m * \<theta>)"
  "Im (Complex (cos \<theta>) (sin \<theta>) ^ m) = sin (real m * \<theta>)"
proof -
  have "Complex (cos \<theta>) (sin \<theta>) = cis \<theta>" by (simp add: complex_eq_iff)
  then have "Complex (cos \<theta>) (sin \<theta>) ^ m = cis (real m * \<theta>)" by (simp add: DeMoivre)
  then show "Re (Complex (cos \<theta>) (sin \<theta>) ^ m) = cos (real m * \<theta>)"
    "Im (Complex (cos \<theta>) (sin \<theta>) ^ m) = sin (real m * \<theta>)" by simp_all
qed

text \<open>
  C7. Azimuthal modes in RZ geometry. A particle at radius \<open>r\<close> and angle \<open>\<theta>\<close>
  (on the axis, \<open>r = 0\<close>, the kernel takes \<open>\<theta> = 0\<close>) whose stencil lies in the array
  adds, at the stencil cell \<open>(ix, iz)\<close>, the tensor weight times \<open>wq\<close> to component 0
  and, for every mode \<open>1 \<le> m < n_rz_azimuthal_modes\<close>, twice that times \<open>cos (m\<theta>)\<close> to
  component \<open>2m - 1\<close> and twice that times \<open>sin (m\<theta>)\<close> to component \<open>2m\<close>. The kernel
  gets the two factors as the real and imaginary parts of \<open>(cos \<theta> + i sin \<theta>)^m\<close>,
  by repeated multiplication (lemma \<open>rz_mode_fold\<close>).
\<close>

theorem azimuthal_mode_weights:
  assumes "GetPosition args ip = (xp, yp, zp)"
    and "xp = r * cos \<theta>" and "yp = r * sin \<theta>" and "0 \<le> r" and "0 < r \<or> \<theta> = 0"
    and "dx args = (dx0, dx1, dx2)" and "xyzmin args = (xmin, ymin, zmin)"
    and "lo args = (lo_x, lo_y, lo_z)"
    and "shape_on_axis depos_order (rho_type args 0) ((r - xmin) * (1 / dx0)) = (i, sx)"
    and "shape_on_axis depos_order (rho_type args (WARPX_ZINDEX DIM_RZ)) ((zp - zmin) * (1 / dx2)) = (k, sz)"
    and "ix \<le> depos_order" and "iz \<le> depos_order"
    and "1 \<le> m" and "int m < n_rz_azimuthal_modes args"
    and "set (deposit_cells DIM_RZ depos_order args ip) \<subseteq> dom arr"
  shows "\<exists>G. deposit_particle DIM_RZ depos_order args ip arr = Some G
     \<and> G (lo_x + i + int ix, lo_y + k + int iz, 0, 0)
         = map_option (\<lambda>a. a + sx ! ix * sz ! iz * particle_wq DIM_RZ args ip)
             (arr (lo_x + i + int ix, lo_y + k + int iz, 0, 0))
     \<and> G (lo_x + i + int ix, lo_y + k + int iz, 0, 2 * int m - 1)
         = map_option (\<lambda>a. a + 2 * (sx ! ix * sz ! iz * particle_wq DIM_RZ args ip) * cos (real m * \<theta>))
             (arr (lo_x + i + int ix, lo_y + k + int iz, 0, 2 * int m - 1))
     \<and> G (lo_x + i + int ix, lo_y + k + int iz, 0, 2 * int m)
         = map_option (\<lambda>a. a + 2 * (sx ! ix * sz ! iz * particle_wq DIM_RZ args ip) * sin (real m * \<theta>))
             (arr (lo_x + i + int ix, lo_y + k + int iz, 0, 2 * int m))"
proof -
  note p = rz_dir_polar [OF assms(2-5)]
  have shx: "shape_on_axis depos_order (rho_type args 0)
      ((sqrt (xp * xp + yp * yp) - xmin) * (1 / dx0)) = (i, sx)"
    unfolding p(1) by (rule assms(9))
  show ?thesis
    using rz_deposit_values [OF assms(1) assms(6-8) shx assms(10) p(2) assms(11-15)]
    unfolding cis_power_parts .
qed

lemma rz_direction_on_axis:
  "sqrt (xp * xp + yp * yp) = 0 \<Longrightarrow> rz_direction xp yp = Some (1, 0)"
  by (simp add: rz_direction_def Let_def)

text \<open>
  C9. On-axis safety in RZ geometry. The direction of a particle is always defined: the
  checked divisions of \<open>rz_direction\<close> never meet a zero divisor. For a particle on the
  axis (\<open>rp = 0\<close>) the direction is \<open>(1, 0)\<close>, and the particle deposits as one at angle
  0: every mode adds twice the tensor weight times \<open>wq\<close> to its cosine component and
  leaves its sine component as it was. Both kernels run the same particle body,
  \<open>deposit_particle\<close>.
\<close>

theorem on_axis_direction:
  assumes "GetPosition args ip = (xp, yp, zp)"
    and "sqrt (xp * xp + yp * yp) = 0"
    and "dx args = (dx0, dx1, dx2)" and "xyzmin args = (xmin, ymin, zmin)"
    and "lo args = (lo_x, lo_y, lo_z)"
    and "shape_on_axis depos_order (rho_type args 0) ((0 - xmin) * (1 / dx0)) = (i, sx)"
    and "shape_on_axis depos_order (rho_type args (WARPX_ZINDEX DIM_RZ)) ((zp - zmin) * (1 / dx2)) = (k, sz)"
    and "ix \<le> depos_order" and "iz \<le> depos_order"
    and "1 \<le> m" and "int m < n_rz_azimuthal_modes args"
    and "set (deposit_cells DIM_RZ depos_order args ip) \<subseteq> dom arr"
  shows "rz_direction xp yp = Some (1, 0)
     \<and> (\<forall>x y. \<exists>c s. rz_direction x y = Some (c, s))
     \<and> (\<exists>G. deposit_particle DIM_RZ depos_order args ip arr = Some G
          \<and> G (lo_x + i + int ix, lo_y + k + int iz, 0, 2 * int m - 1)
              = map_option (\<lambda>a. a + 2 * (sx ! ix * sz ! iz * particle_wq DIM_RZ args ip))
                  (arr (lo_x + i + int ix, lo_y + k + int iz, 0, 2 * int m - 1))
          \<and> G (lo_x + i + int ix, lo_y + k + int iz, 0, 2 * int m)
              = arr (lo_x + i + int ix, lo_y + k + int iz, 0, 2 * int m))"
proof -
  have dir: "rz_dir xp yp = (1, 0)"
    using assms(2) by (simp add: rz_dir_def Let_def)
  have shx: "shape_on_axis depos_order (rho_type args 0)
      ((sqrt (xp * xp + yp * yp) - xmin) * (1 / dx0)) = (i, sx)"
    unfolding assms(2) by (rule assms(6))
  have one: "Complex 1 0 ^ m = 1"
    by (simp add: complex_eq_iff flip: one_complex.code)
  have tot: "\<forall>x y. \<exists>c s. rz_direction x y = Some (c, s)"
    by (metis rz_direction_total surj_pair)
  obtain G where G: "deposit_particle DIM_RZ depos_order args ip arr = Some G"
    and c: "G (lo_x + i + int ix, lo_y + k + int iz, 0, 2 * int m - 1)
         = map_option (\<lambda>a. a + 2 * (sx ! ix * sz ! iz * particle_wq DIM_RZ args ip) * Re (Complex 1 0 ^ m))
             (arr (lo_x + i + int ix, lo_y + k + int iz, 0, 2 * int m - 1))"
    and s: "G (lo_x + i + int ix, lo_y + k + int iz, 0, 2 * int m)
         = map_option (\<lambda>a. a + 2 * (sx ! ix * sz ! iz * particle_wq DIM_RZ args ip) * Im (Complex 1 0 ^ m))
             (arr (lo_x + i + int ix, lo_y + k + int iz, 0, 2 * int m))"
    using rz_deposit_values [OF assms(1) assms(3-5) shx assms(7) dir assms(8-12)] by blast
  have s': "G (lo_x + i + int ix, lo_y + k + int iz, 0, 2 * int m)
      = arr (lo_x + i + int ix, lo_y + k + int iz, 0, 2 * int m)"
    unfolding s one by (simp add: option.map_ident)
  show ?thesis
    using rz_direction_on_axis [OF assms(2)] tot G c s' unfolding one by simp
qed

lemma example_shapes:
  "shape_on_axis 1 NODE (13/4) = (3, [3/4, 1/4])"
  "shape_on_axis 1 NODE (5/2) = (2, [1/2, 1/2])"
  "shape_on_axis 1 NODE 0 = (0, [1, 0])"
  "shape_on_axis (Suc 0) NODE (13/4) = (3, [3/4, 1/4])"
  "shape_on_axis (Suc 0) NODE (5/2) = (2, [1/2, 1/2])"
  "shape_on_axis (Suc 0) NODE 0 = (0, [1, 0])"
  by (simp_all add: shape_on_axis_def compute_shape_factor_def Let_def)

lemma example_dom:
  "dom (zero_array ({0..9} \<times> {0..9} \<times> {0} \<times> {0..2::int}) :: rho_cell Array4)
     = {0..9} \<times> {0..9} \<times> {0} \<times> {0..2}"
  by (auto simp: zero_array_def split: if_splits)

lemma example_rz_cells:
  "set (deposit_cells DIM_RZ 1 (example_particle (13/4) 2) 0) \<subseteq> {0..9} \<times> {0..9} \<times> {0} \<times> {0..2}"
proof -
  have p: "sqrt (13/4 * (13/4) + 0 * 0) = 13/4" "rz_dir (13/4) 0 = (cos 0, sin 0)"
    using rz_dir_polar [of "13/4" "13/4" 0 0] by simp_all
  have p': "sqrt (169/16) = 13/4" using p(1) by simp
  have "particle_adds DIM_RZ 1 (example_particle (13/4) 2) 0
      = rz_adds 1 2 3 2 [3/4, 1/4] [1/2, 1/2]
          (particle_wq DIM_RZ (example_particle (13/4) 2) 0) (Complex (cos 0) (sin 0))"
    using particle_adds_RZ [of "example_particle (13/4) 2" 0 "13/4" 0 "5/2" 1 1 1 0 0 0 0 0 0
        1 3 "[3/4, 1/4]" 2 "[1/2, 1/2]" "cos 0" "sin 0"]
    by (simp add: example_particle_def p p' example_shapes WARPX_ZINDEX_def)
  then show ?thesis
    by (simp add: deposit_cells_def rz_adds_def mode_adds_def upt_rec)
qed

theorem azimuthal_mode_weights_witness:
  "\<exists>G. deposit_particle DIM_RZ 1 (example_particle (13/4) 2) 0
          (zero_array ({0..9} \<times> {0..9} \<times> {0} \<times> {0..2})) = Some G
     \<and> G (3, 2, 0, 0) = Some (3/8)
     \<and> G (3, 2, 0, 1) = Some (3/4)
     \<and> G (3, 2, 0, 2) = Some 0"
proof -
  let ?args = "example_particle (13/4) 2"
  let ?arr = "zero_array ({0..9} \<times> {0..9} \<times> {0} \<times> {0..2}) :: rho_cell Array4"
  have wq: "particle_wq DIM_RZ ?args 0 = 1"
    by (simp add: particle_wq_def example_particle_def invvol_def)
  have "\<exists>G. deposit_particle DIM_RZ 1 ?args 0 ?arr = Some G
     \<and> G (0 + 3 + int 0, 0 + 2 + int 0, 0, 0)
         = map_option (\<lambda>a. a + [3/4, 1/4] ! 0 * [1/2, 1/2] ! 0 * particle_wq DIM_RZ ?args 0)
             (?arr (0 + 3 + int 0, 0 + 2 + int 0, 0, 0))
     \<and> G (0 + 3 + int 0, 0 + 2 + int 0, 0, 2 * int 1 - 1)
         = map_option (\<lambda>a. a + 2 * ([3/4, 1/4] ! 0 * [1/2, 1/2] ! 0 * particle_wq DIM_RZ ?args 0) * cos (real 1 * 0))
             (?arr (0 + 3 + int 0, 0 + 2 + int 0, 0, 2 * int 1 - 1))
     \<and> G (0 + 3 + int 0, 0 + 2 + int 0, 0, 2 * int 1)
         = map_option (\<lambda>a. a + 2 * ([3/4, 1/4] ! 0 * [1/2, 1/2] ! 0 * particle_wq DIM_RZ ?args 0) * sin (real 1 * 0))
             (?arr (0 + 3 + int 0, 0 + 2 + int 0, 0, 2 * int 1))"
  proof (rule azimuthal_mode_weights [where xp = "13/4" and yp = 0 and zp = "5/2" and r = "13/4"
        and ?dx0.0 = 1 and ?dx1.0 = 1 and ?dx2.0 = 1 and xmin = 0 and ymin = 0 and zmin = 0 and lo_z = 0])
    show "set (deposit_cells DIM_RZ 1 ?args 0) \<subseteq> dom ?arr"
      unfolding example_dom by (rule example_rz_cells)
  qed (simp_all add: example_particle_def example_shapes WARPX_ZINDEX_def)
  then show ?thesis
    by (simp add: wq zero_array_def)
qed

lemma example_axis_cells:
  "set (deposit_cells DIM_RZ 1 (example_particle 0 2) 0) \<subseteq> {0..9} \<times> {0..9} \<times> {0} \<times> {0..2}"
proof -
  have d: "rz_dir 0 0 = (1, 0)" by (simp add: rz_dir_def)
  have "particle_adds DIM_RZ 1 (example_particle 0 2) 0
      = rz_adds 1 2 0 2 [1, 0] [1/2, 1/2]
          (particle_wq DIM_RZ (example_particle 0 2) 0) (Complex 1 0)"
    using particle_adds_RZ [of "example_particle 0 2" 0 0 0 "5/2" 1 1 1 0 0 0 0 0 0
        1 0 "[1, 0]" 2 "[1/2, 1/2]" 1 0]
    by (simp add: example_particle_def d example_shapes WARPX_ZINDEX_def)
  then show ?thesis
    by (simp add: deposit_cells_def rz_adds_def mode_adds_def upt_rec)
qed

theorem on_axis_direction_witness:
  "rz_direction 0 0 = Some (1, 0)
   \<and> (\<exists>G. deposit_particle DIM_RZ 1 (example_particle 0 2) 0
          (zero_array ({0..9} \<times> {0..9} \<times> {0} \<times> {0..2})) = Some G
        \<and> G (0, 2, 0, 1) = Some 1
        \<and> G (0, 2, 0, 2) = Some 0)"
proof -
  let ?args = "example_particle 0 2"
  let ?arr = "zero_array ({0..9} \<times> {0..9} \<times> {0} \<times> {0..2}) :: rho_cell Array4"
  have wq: "particle_wq DIM_RZ ?args 0 = 1"
    by (simp add: particle_wq_def example_particle_def invvol_def)
  have "rz_direction 0 0 = Some (1, 0)
     \<and> (\<forall>x y. \<exists>c s. rz_direction x y = Some (c, s))
     \<and> (\<exists>G. deposit_particle DIM_RZ 1 ?args 0 ?arr = Some G
          \<and> G (0 + 0 + int 0, 0 + 2 + int 0, 0, 2 * int 1 - 1)
              = map_option (\<lambda>a. a + 2 * ([1, 0] ! 0 * [1/2, 1/2] ! 0 * particle_wq DIM_RZ ?args 0))
                  (?arr (0 + 0 + int 0, 0 + 2 + int 0, 0, 2 * int 1 - 1))
          \<and> G (0 + 0 + int 0, 0 + 2 + int 0, 0, 2 * int 1)
              = ?arr (0 + 0 + int 0, 0 + 2 + int 0, 0, 2 * int 1))"
  proof (rule on_axis_direction [where zp = "5/2"
        and ?dx0.0 = 1 and ?dx1.0 = 1 and ?dx2.0 = 1 and xmin = 0 and ymin = 0 and zmin = 0 and lo_z = 0])
    show "set (deposit_cells DIM_RZ 1 ?args 0) \<subseteq> dom ?arr"
      unfolding example_dom by (rule example_axis_cells)
  qed (simp_all add: example_particle_def example_shapes WARPX_ZINDEX_def)
  then show ?thesis
    by (simp add: wq zero_array_def)
qed

lemma upt_0_2: "[0..<2] = [0, Suc 0]"
  by (simp add: upt_rec)

lemma for_sides_fold:
  "for_sides ndim body s = fold (\<lambda>(idim, iside). body idim iside) (sides ndim) s"
proof (induction ndim arbitrary: s)
  case 0
  show ?case by (simp add: for_sides_def sides_def)
next
  case (Suc ndim)
  have "for_sides (Suc ndim) body s = body ndim (Suc 0) (body ndim 0 (for_sides ndim body s))"
    by (simp add: for_sides_def upt_0_2)
  also have "\<dots> = fold (\<lambda>(idim, iside). body idim iside) (sides ndim @ [(ndim, 0), (ndim, 1)]) s"
    by (simp add: Suc.IH)
  finally show ?case by (simp add: sides_def)
qed

lemma set_sides: "set (sides ndim) = {(idim, iside). idim < ndim \<and> iside < 2}"
  by (auto simp: sides_def)




lemma pec_side_keeps_flag:
  "OnPECBoundary st \<Longrightarrow>
   OnPECBoundary (pec_side geom flips icomp dom_lo dom_hi ijk_vec is_nodal fl fh idim iside st)"
  by (simp add: pec_side_def Let_def)

lemma pec_side_sets_flag:
  assumes "isPECBoundary fl fh idim iside"
    and "get_cell_count_to_boundary dom_lo dom_hi ijk_vec is_nodal idim iside = 0"
    and "flips idim" and "is_nodal ! idim = 1"
  shows "OnPECBoundary (pec_side geom flips icomp dom_lo dom_hi ijk_vec is_nodal fl fh idim iside st)"
  using assms by (simp add: pec_side_def Let_def)

lemma fold_keeps_flag:
  "OnPECBoundary st \<Longrightarrow>
   OnPECBoundary (fold (\<lambda>(idim, iside). pec_side geom flips icomp dom_lo dom_hi ijk_vec is_nodal fl fh idim iside) xs st)"
  by (induction xs arbitrary: st) (auto simp: pec_side_keeps_flag)

lemma fold_sets_flag:
  assumes "(idim, iside) \<in> set xs"
    and "isPECBoundary fl fh idim iside"
    and "get_cell_count_to_boundary dom_lo dom_hi ijk_vec is_nodal idim iside = 0"
    and "flips idim" and "is_nodal ! idim = 1"
  shows "OnPECBoundary (fold (\<lambda>(idim, iside). pec_side geom flips icomp dom_lo dom_hi ijk_vec is_nodal fl fh idim iside) xs st)"
  using assms(1)
proof (induction xs arbitrary: st)
  case Nil
  then show ?case by simp
next
  case (Cons a xs)
  show ?case
  proof (cases "a = (idim, iside)")
    case True
    have "OnPECBoundary (pec_side geom flips icomp dom_lo dom_hi ijk_vec is_nodal fl fh idim iside st)"
      using assms(2-5) by (rule pec_side_sets_flag)
    then show ?thesis
      using True by (simp add: fold_keeps_flag)
  next
    case False
    then show ?thesis using Cons by auto
  qed
qed

lemma set_field_on_boundary:
  assumes "idim < AMREX_SPACEDIM geom" and "iside < 2"
    and "isPECBoundary fbndry_lo fbndry_hi idim iside"
    and "get_cell_count_to_boundary dom_lo dom_hi ijk_vec is_nodal idim iside = 0"
    and "flips idim" and "is_nodal ! idim = 1"
    and "(ijk_vec, n) \<in> dom field"
  shows "set_field_on_PEC geom flips icomp dom_lo dom_hi ijk_vec n field is_nodal fbndry_lo fbndry_hi
       = Some (field((ijk_vec, n) \<mapsto> 0))"
proof -
  have "(idim, iside) \<in> set (sides (AMREX_SPACEDIM geom))"
    using assms(1,2) by (simp add: set_sides)
  then have "OnPECBoundary (for_sides (AMREX_SPACEDIM geom)
      (pec_side geom flips icomp dom_lo dom_hi ijk_vec is_nodal fbndry_lo fbndry_hi)
      \<lparr>ijk_mirror = ijk_vec, OnPECBoundary = False, GuardCell = False, sign = 1\<rparr>)"
    unfolding for_sides_fold using assms(3-6) by (intro fold_sets_flag)
  then show ?thesis
    using assms(7) by (simp add: set_field_on_PEC_def Let_def a4_set_def)
qed

text \<open>
  C3. A cell exactly on a PEC boundary (\<open>ig = 0\<close>) across an axis on which the array is
  nodal: for a component tangential to that boundary \<open>SetEfieldOnPEC\<close> writes 0 to the
  cell, whatever the cell held and whatever the other boundaries are.
\<close>

theorem pec_zeroes_tangential_field:
  assumes "idim < AMREX_SPACEDIM geom" and "iside < 2"
    and "isPECBoundary fbndry_lo fbndry_hi idim iside"
    and "get_cell_count_to_boundary dom_lo dom_hi ijk_vec is_nodal idim iside = 0"
    and "is_nodal ! idim = 1"
    and "is_tangent_to_PEC geom icomp idim"
    and "(ijk_vec, n) \<in> dom Efield"
  shows "SetEfieldOnPEC geom icomp dom_lo dom_hi ijk_vec n Efield is_nodal fbndry_lo fbndry_hi
       = Some (Efield((ijk_vec, n) \<mapsto> 0))"
  unfolding SetEfieldOnPEC_def
  using assms by (intro set_field_on_boundary)





theorem pec_zeroes_tangential_field_witness:
  "SetEfieldOnPEC DIM_XZ 1 [0, 0] [9, 9] [0, 5] 0 (\<lambda>c. Some 5) [1, 1]
      (\<lambda>d. if d = 0 then PEC else OtherBoundary) (\<lambda>d. OtherBoundary)
     = Some ((\<lambda>c. Some 5)(([0, 5], 0) \<mapsto> 0))"
  using pec_zeroes_tangential_field [of 0 DIM_XZ 0 "\<lambda>d. if d = 0 then PEC else OtherBoundary"
      "\<lambda>d. OtherBoundary" "[0, 0]" "[9, 9]" "[0, 5]" "[1, 1]" 1 0 "\<lambda>c. Some 5"]
  by (simp add: isPECBoundary_def is_boundary_PEC_def get_cell_count_to_boundary_def
      is_tangent_to_PEC_def)




lemma for_sides_bind_fold:
  "for_sides ndim (\<lambda>idim iside st. st \<bind> body idim iside) (st :: 'a option)
     = fold (\<lambda>(idim, iside) st. st \<bind> body idim iside) (sides ndim) st"
  by (simp add: for_sides_fold)

lemma a4_set_in: "c \<in> dom arr \<Longrightarrow> a4_set arr c v = Some (arr(c \<mapsto> v))"
  by (simp add: a4_set_def)

lemma rho_step1_fold:
  assumes own: "(ijk_vec, n) \<in> dom field"
    and box: "\<And>iv. contains fabbox iv \<Longrightarrow> (iv, n) \<in> dom field"
  shows "fold (\<lambda>(idim, iside) st. st \<bind> rho_fold_guard n ijk_vec mirrorfac psign is_pec fabbox idim iside)
           xs (Some (field((ijk_vec, n) \<mapsto> v)))
       = Some (field((ijk_vec, n) \<mapsto>
           fold (\<lambda>(idim, iside) v.
                  if \<not> is_pec idim iside then v
                  else if ijk_vec = mirror_cell mirrorfac ijk_vec idim iside then 0
                  else if contains fabbox (mirror_cell mirrorfac ijk_vec idim iside)
                    then v + psign idim iside * the (field (mirror_cell mirrorfac ijk_vec idim iside, n))
                  else v) xs v))"
proof (induction xs arbitrary: v)
  case Nil
  show ?case by simp
next
  case (Cons x xs)
  obtain idim iside where x: "x = (idim, iside)" by (cases x)
  let ?m = "mirror_cell mirrorfac ijk_vec idim iside"
  let ?f = "field((ijk_vec, n) \<mapsto> v)"
  have st: "rho_fold_guard n ijk_vec mirrorfac psign is_pec fabbox idim iside ?f
      = Some (field((ijk_vec, n) \<mapsto>
          (if \<not> is_pec idim iside then v
           else if ijk_vec = ?m then 0
           else if contains fabbox ?m then v + psign idim iside * the (field (?m, n))
           else v)))"
  proof (cases "is_pec idim iside \<and> ijk_vec \<noteq> ?m \<and> contains fabbox ?m")
    case True
    then obtain g where g: "field (?m, n) = Some g" using box by blast
    have ne: "?m \<noteq> ijk_vec" using True by auto
    show ?thesis
      using True g ne by (simp add: rho_fold_guard_def Let_def a4_set_def)
  next
    case False
    then show ?thesis
      by (auto simp: rho_fold_guard_def Let_def a4_set_def)
  qed
  show ?case
    unfolding x by (simp only: fold_simps o_apply split_conv Option.bind.simps st Cons.IH)
qed

lemma mirror_cell_axis:
  assumes "mirror_cell mirrorfac ijk_vec d s = mirror_cell mirrorfac ijk_vec d' s'"
    and "mirror_cell mirrorfac ijk_vec d s \<noteq> ijk_vec"
    and "d < length ijk_vec" and "d' < length ijk_vec"
  shows "d = d'"
proof (rule ccontr)
  assume ne: "d \<noteq> d'"
  have "mirror_cell mirrorfac ijk_vec d s ! d = mirror_cell mirrorfac ijk_vec d' s' ! d"
    using assms(1) by simp
  then have "mirrorfac d s - ijk_vec ! d = ijk_vec ! d"
    using ne assms(3) by (simp add: mirror_cell_def)
  then have "mirror_cell mirrorfac ijk_vec d s = ijk_vec"
    by (simp add: mirror_cell_def)
  then show False using assms(2) by simp
qed

text \<open>Step 2 as a run of plain writes: the value read from the interior cell never changes.\<close>

lemma rho_step2_fold:
  assumes own: "G (ijk_vec, n) = Some v1"
    and box: "\<And>iv. contains fabbox iv \<Longrightarrow> (iv, n) \<in> dom G"
  shows "fold (\<lambda>(idim, iside) st. st \<bind> rho_set_guard n ijk_vec mirrorfac is_pec tangent_to_bndy fabbox idim iside)
           xs (Some G)
       = Some (fold (rho_guard_write n ijk_vec mirrorfac is_pec tangent_to_bndy fabbox v1) xs G)"
  using assms
proof (induction xs arbitrary: G)
  case Nil
  show ?case by simp
next
  case (Cons x xs)
  obtain idim iside where x: "x = (idim, iside)" by (cases x)
  let ?m = "mirror_cell mirrorfac ijk_vec idim iside"
  let ?G' = "if is_pec idim iside \<and> ijk_vec \<noteq> ?m \<and> contains fabbox ?m
             then G((?m, n) \<mapsto> (if tangent_to_bndy idim then - v1 else v1)) else G"
  have step: "rho_set_guard n ijk_vec mirrorfac is_pec tangent_to_bndy fabbox idim iside G = Some ?G'"
    using Cons.prems by (auto simp: rho_set_guard_def Let_def a4_set_def)
  have own': "?G' (ijk_vec, n) = Some v1" using Cons.prems(1) by auto
  have box': "\<And>iv. contains fabbox iv \<Longrightarrow> (iv, n) \<in> dom ?G'"
    using Cons.prems(2) by auto
  show ?case
    using Cons.IH [OF own' box'] by (simp add: x step rho_guard_write_def)
qed

lemma fold_preserves:
  assumes "Q s" and "\<And>z t. z \<in> set xs \<Longrightarrow> Q t \<Longrightarrow> Q (f z t)"
  shows "Q (fold f xs s)"
  using assms by (induction xs arbitrary: s) auto

lemma fold_establishes:
  assumes "x \<in> set xs" and "\<And>t. Q (f x t)" and "\<And>z t. z \<in> set xs \<Longrightarrow> Q t \<Longrightarrow> Q (f z t)"
  shows "Q (fold f xs s)"
  using assms
proof (induction xs arbitrary: s)
  case Nil
  then show ?case by simp
next
  case (Cons a xs)
  show ?case
  proof (cases "a = x")
    case True
    have "Q (fold f xs (f x s))"
    proof (rule fold_preserves [of Q])
      show "Q (f x s)" by (rule Cons.prems(2))
      show "Q (f z t)" if "z \<in> set xs" "Q t" for z t
        using that Cons.prems(3) by simp
    qed
    then show ?thesis using True by simp
  next
    case False
    then have "x \<in> set xs" using Cons.prems(1) by simp
    then have "Q (fold f xs (f a s))"
    proof (rule Cons.IH)
      show "Q (f x t)" for t by (rule Cons.prems(2))
      show "Q (f z t)" if "z \<in> set xs" "Q t" for z t
        using that Cons.prems(3) by simp
    qed
    then show ?thesis by simp
  qed
qed

lemma rho_guard_write_other:
  assumes "\<And>d s. (d, s) \<in> set xs \<Longrightarrow> is_pec d s \<Longrightarrow>
             ijk_vec \<noteq> mirror_cell mirrorfac ijk_vec d s \<Longrightarrow>
             contains fabbox (mirror_cell mirrorfac ijk_vec d s) \<Longrightarrow>
             c \<noteq> (mirror_cell mirrorfac ijk_vec d s, n)"
  shows "fold (rho_guard_write n ijk_vec mirrorfac is_pec tangent_to_bndy fabbox v1) xs G c = G c"
proof (rule fold_preserves [where Q = "\<lambda>F. F c = G c"])
  show "G c = G c" ..
next
  fix z t assume z: "z \<in> set xs" and t: "t c = G c"
  obtain d s where zz: "z = (d, s)" by (cases z)
  show "rho_guard_write n ijk_vec mirrorfac is_pec tangent_to_bndy fabbox v1 z t c = G c"
    using assms [of d s] z t by (auto simp: rho_guard_write_def zz)
qed

lemma rho_guard_write_mirror:
  assumes mem: "(d, s) \<in> set xs" and pec: "is_pec d s"
    and ne: "ijk_vec \<noteq> mirror_cell mirrorfac ijk_vec d s"
    and inb: "contains fabbox (mirror_cell mirrorfac ijk_vec d s)"
    and len: "\<And>d' s'. (d', s') \<in> set xs \<Longrightarrow> d' < length ijk_vec"
  shows "fold (rho_guard_write n ijk_vec mirrorfac is_pec tangent_to_bndy fabbox v1) xs G
           (mirror_cell mirrorfac ijk_vec d s, n)
         = Some (if tangent_to_bndy d then - v1 else v1)"
proof (rule fold_establishes [where x = "(d, s)"
      and Q = "\<lambda>F. F (mirror_cell mirrorfac ijk_vec d s, n) = Some (if tangent_to_bndy d then - v1 else v1)"])
  show "(d, s) \<in> set xs" by (rule mem)
next
  fix t
  show "rho_guard_write n ijk_vec mirrorfac is_pec tangent_to_bndy fabbox v1 (d, s) t
          (mirror_cell mirrorfac ijk_vec d s, n) = Some (if tangent_to_bndy d then - v1 else v1)"
    using pec ne inb by (simp add: rho_guard_write_def)
next
  fix z t
  assume z: "z \<in> set xs"
    and t: "t (mirror_cell mirrorfac ijk_vec d s, n) = Some (if tangent_to_bndy d then - v1 else v1)"
  obtain d' s' where zz: "z = (d', s')" by (cases z)
  have dl: "d < length ijk_vec" "d' < length ijk_vec"
    using len [OF mem] len [of d' s'] z by (simp_all add: zz)
  show "rho_guard_write n ijk_vec mirrorfac is_pec tangent_to_bndy fabbox v1 z t
          (mirror_cell mirrorfac ijk_vec d s, n) = Some (if tangent_to_bndy d then - v1 else v1)"
  proof (cases "mirror_cell mirrorfac ijk_vec d' s' = mirror_cell mirrorfac ijk_vec d s")
    case True
    then have "d' = d"
      using mirror_cell_axis [of mirrorfac ijk_vec d s d' s'] ne dl by auto
    then show ?thesis using True t by (simp add: rho_guard_write_def zz)
  next
    case False
    then show ?thesis using t by (simp add: rho_guard_write_def zz)
  qed
qed

lemma rho_guard_write_own:
  "fold (rho_guard_write n ijk_vec mirrorfac is_pec tangent_to_bndy fabbox v1) xs G (ijk_vec, n)
     = G (ijk_vec, n)"
  by (rule fold_preserves [where Q = "\<lambda>F. F (ijk_vec, n) = G (ijk_vec, n)"])
     (auto simp: rho_guard_write_def)

lemma length_sides: "(d, s) \<in> set (sides ndim) \<Longrightarrow> d < ndim"
  by (simp add: set_sides)

lemma rho_kernel_result:
  assumes own: "field (ijk_vec, n) = Some v0"
    and box: "\<And>iv. contains fabbox iv \<Longrightarrow> (iv, n) \<in> dom field"
    and v1: "v1 = rho_folded_value (AMREX_SPACEDIM geom) n ijk_vec field mirrorfac psign is_pec fabbox v0"
  shows "SetRhoOrJfieldFromPEC geom n ijk_vec field mirrorfac psign is_pec tangent_to_bndy fabbox
     = Some (fold (rho_guard_write n ijk_vec mirrorfac is_pec tangent_to_bndy fabbox v1)
               (sides (AMREX_SPACEDIM geom)) (field((ijk_vec, n) \<mapsto> v1)))"
proof -
  let ?S = "sides (AMREX_SPACEDIM geom)"
  have f0: "field((ijk_vec, n) \<mapsto> v0) = field" using own by (rule map_upd_triv)
  have ownd: "(ijk_vec, n) \<in> dom field" using own by blast
  have s1: "for_sides (AMREX_SPACEDIM geom)
        (\<lambda>idim iside st. st \<bind> rho_fold_guard n ijk_vec mirrorfac psign is_pec fabbox idim iside)
        (Some field) = Some (field((ijk_vec, n) \<mapsto> v1))"
    unfolding for_sides_bind_fold v1 rho_folded_value_def for_sides_fold
    using rho_step1_fold [OF ownd box, of fabbox mirrorfac psign is_pec ?S v0]
    by (simp only: f0)
  have box1: "\<And>iv. contains fabbox iv \<Longrightarrow> (iv, n) \<in> dom (field((ijk_vec, n) \<mapsto> v1))"
    using box by auto
  have s2: "for_sides (AMREX_SPACEDIM geom)
        (\<lambda>idim iside st. st \<bind> rho_set_guard n ijk_vec mirrorfac is_pec tangent_to_bndy fabbox idim iside)
        (Some (field((ijk_vec, n) \<mapsto> v1)))
      = Some (fold (rho_guard_write n ijk_vec mirrorfac is_pec tangent_to_bndy fabbox v1) ?S
                (field((ijk_vec, n) \<mapsto> v1)))"
    unfolding for_sides_bind_fold
    by (rule rho_step2_fold [OF _ box1]) simp_all
  show ?thesis
    by (simp add: SetRhoOrJfieldFromPEC_def s1 s2)
qed

text \<open>
  C5. \<open>SetRhoOrJfieldFromPEC\<close> at an interior cell \<open>ijk_vec\<close> of an array that holds the fab
  box. Step 1 folds the guard cells into the cell: it ends with the value \<open>v1\<close>
  (\<open>rho_folded_value\<close>: side after side, 0 where the cell is its own mirror, else plus
  \<open>psign\<close> times the deposited value of the mirror guard cell). Step 2 then writes
  \<open>-v1\<close> (tangential axis) or \<open>v1\<close> to every mirror guard cell of the fab box: each guard
  cell receives the value the interior cell has after the whole of step 1. No other
  cell changes.
\<close>

theorem rho_fold_then_overwrite:
  assumes "length ijk_vec = AMREX_SPACEDIM geom"
    and "field (ijk_vec, n) = Some v0"
    and "\<And>iv. contains fabbox iv \<Longrightarrow> (iv, n) \<in> dom field"
    and "v1 = rho_folded_value (AMREX_SPACEDIM geom) n ijk_vec field mirrorfac psign is_pec fabbox v0"
  shows "\<exists>F. SetRhoOrJfieldFromPEC geom n ijk_vec field mirrorfac psign is_pec tangent_to_bndy fabbox
              = Some F
      \<and> F (ijk_vec, n) = Some v1
      \<and> (\<forall>idim iside. idim < AMREX_SPACEDIM geom \<and> iside < 2 \<and> is_pec idim iside
            \<and> mirror_cell mirrorfac ijk_vec idim iside \<noteq> ijk_vec
            \<and> contains fabbox (mirror_cell mirrorfac ijk_vec idim iside)
          \<longrightarrow> F (mirror_cell mirrorfac ijk_vec idim iside, n)
                = Some (if tangent_to_bndy idim then - v1 else v1))
      \<and> (\<forall>c. c \<noteq> (ijk_vec, n)
            \<and> (\<forall>idim iside. idim < AMREX_SPACEDIM geom \<and> iside < 2 \<and> is_pec idim iside
                  \<and> contains fabbox (mirror_cell mirrorfac ijk_vec idim iside)
                \<longrightarrow> c \<noteq> (mirror_cell mirrorfac ijk_vec idim iside, n))
          \<longrightarrow> F c = field c)"
proof -
  let ?S = "sides (AMREX_SPACEDIM geom)"
  let ?W = "rho_guard_write n ijk_vec mirrorfac is_pec tangent_to_bndy fabbox v1"
  let ?F = "fold ?W ?S (field((ijk_vec, n) \<mapsto> v1))"
  have r: "SetRhoOrJfieldFromPEC geom n ijk_vec field mirrorfac psign is_pec tangent_to_bndy fabbox
      = Some ?F"
    using assms(2-4) by (rule rho_kernel_result)
  have a: "?F (ijk_vec, n) = Some v1"
    by (simp add: rho_guard_write_own)
  have b: "?F (mirror_cell mirrorfac ijk_vec idim iside, n) = Some (if tangent_to_bndy idim then - v1 else v1)"
    if "idim < AMREX_SPACEDIM geom" "iside < 2" "is_pec idim iside"
      "mirror_cell mirrorfac ijk_vec idim iside \<noteq> ijk_vec"
      "contains fabbox (mirror_cell mirrorfac ijk_vec idim iside)" for idim iside
  proof (rule rho_guard_write_mirror)
    show "(idim, iside) \<in> set ?S" using that(1,2) by (simp add: set_sides)
    show "is_pec idim iside" by (rule that(3))
    show "ijk_vec \<noteq> mirror_cell mirrorfac ijk_vec idim iside" using that(4) by simp
    show "contains fabbox (mirror_cell mirrorfac ijk_vec idim iside)" by (rule that(5))
    show "d' < length ijk_vec" if "(d', s') \<in> set ?S" for d' s'
      using that assms(1) by (simp add: set_sides)
  qed
  have c: "?F c = field c"
    if "c \<noteq> (ijk_vec, n)"
      "\<And>idim iside. idim < AMREX_SPACEDIM geom \<Longrightarrow> iside < 2 \<Longrightarrow> is_pec idim iside \<Longrightarrow>
          contains fabbox (mirror_cell mirrorfac ijk_vec idim iside) \<Longrightarrow>
          c \<noteq> (mirror_cell mirrorfac ijk_vec idim iside, n)" for c
  proof -
    have "?F c = (field((ijk_vec, n) \<mapsto> v1)) c"
      by (rule rho_guard_write_other) (use that(2) in \<open>simp add: set_sides\<close>)
    then show ?thesis using that(1) by simp
  qed
  show ?thesis
    unfolding r using a b c by blast
qed

theorem rho_fold_then_overwrite_witness:
  "\<exists>F. SetRhoOrJfieldFromPEC DIM_1D_Z 0 [2]
          (\<lambda>c. if c = ([2], 0) then Some 5 else if c = ([- 2], 0) then Some 2 else Some 0)
          (\<lambda>d s. 0) (\<lambda>d s. - 1) (\<lambda>d s. s = 0) (\<lambda>d. True)
          \<lparr>smallend = [- 3], bigend = [12]\<rparr> = Some F
      \<and> F ([2], 0) = Some 3 \<and> F ([- 2], 0) = Some (- 3)"
proof -
  let ?field = "\<lambda>c :: field_cell. if c = ([2], 0) then Some (5::real) else if c = ([- 2], 0) then Some 2 else Some 0"
  let ?box = "\<lparr>smallend = [- 3], bigend = [12]\<rparr>"
  have v1: "rho_folded_value (AMREX_SPACEDIM DIM_1D_Z) 0 [2] ?field (\<lambda>d s. 0) (\<lambda>d s. - 1)
      (\<lambda>d s. s = 0) ?box 5 = 3"
    by (simp add: rho_folded_value_def for_sides_def upt_0_2 mirror_cell_def contains_def)
  have len: "length [2::int] = AMREX_SPACEDIM DIM_1D_Z" by simp
  have own: "?field ([2], 0) = Some 5" by simp
  have box: "\<And>iv. contains ?box iv \<Longrightarrow> (iv, 0) \<in> dom ?field"
    by (simp add: dom_def)
  from rho_fold_then_overwrite [of "[2]" DIM_1D_Z ?field 0 5 ?box 3 "\<lambda>d s. 0" "\<lambda>d s. - 1"
        "\<lambda>d s. s = 0" "\<lambda>d. True", OF len own box v1 [symmetric]]
  obtain F where F: "SetRhoOrJfieldFromPEC DIM_1D_Z 0 [2] ?field (\<lambda>d s. 0) (\<lambda>d s. - 1)
        (\<lambda>d s. s = 0) (\<lambda>d. True) ?box = Some F"
    and a: "F ([2], 0) = Some 3"
    and b: "\<forall>idim iside. idim < AMREX_SPACEDIM DIM_1D_Z \<and> iside < 2 \<and> iside = 0
            \<and> mirror_cell (\<lambda>d s. 0) [2] idim iside \<noteq> [2]
            \<and> contains ?box (mirror_cell (\<lambda>d s. 0) [2] idim iside)
          \<longrightarrow> F (mirror_cell (\<lambda>d s. 0) [2] idim iside, 0)
                = Some (if True then - 3 else 3)"
    by blast
  have "F (mirror_cell (\<lambda>d s. 0) [2] 0 0, 0) = Some (if True then - 3 else 3)"
    using b by (simp add: mirror_cell_def contains_def)
  then show ?thesis using F a by (simp add: mirror_cell_def)
qed

lemma for_sides_bind_fold_pair:
  "for_sides ndim (\<lambda>idim iside st. st \<bind> body idim iside) (st :: 'a option)
     = fold (\<lambda>x st. st \<bind> body (fst x) (snd x)) (sides ndim) st"
proof -
  have "(\<lambda>(idim, iside) st. st \<bind> body idim iside) = (\<lambda>x (st :: 'a option). st \<bind> body (fst x) (snd x))"
    by (simp add: fun_eq_iff)
  then show ?thesis by (simp add: for_sides_fold)
qed

lemma fold_bind_invariant:
  assumes "I s"
    and "\<And>x t. x \<in> set xs \<Longrightarrow> I t \<Longrightarrow> \<exists>t'. B x t = Some t' \<and> I t'"
  shows "\<exists>t'. fold (\<lambda>x st. st \<bind> B x) xs (Some s) = Some t' \<and> I t'"
  using assms
proof (induction xs arbitrary: s)
  case Nil
  then show ?case by simp
next
  case (Cons a xs)
  obtain t where t: "B a s = Some t" "I t" using Cons.prems by force
  have "\<exists>t'. fold (\<lambda>x st. st \<bind> B x) xs (Some t) = Some t' \<and> I t'"
  proof (rule Cons.IH)
    show "I t" by (rule t(2))
    show "\<exists>t'. B x u = Some t' \<and> I t'" if "x \<in> set xs" "I u" for x u
      using that Cons.prems(2) by simp
  qed
  then show ?case by (simp add: t(1))
qed

lemma fold_bind_idle:
  assumes "\<And>x t. x \<in> set xs \<Longrightarrow> B x t = Some t"
  shows "fold (\<lambda>x st. st \<bind> B x) xs (Some s) = Some s"
  using assms by (induction xs) simp_all

lemma neumann_side_total:
  assumes "(ijk_vec, n) \<in> dom f" and "\<And>iv. contains fabbox iv \<Longrightarrow> (iv, n) \<in> dom f"
  shows "\<exists>f'. neumann_side n ijk_vec mirrorfac is_pec fabbox idim iside f = Some f' \<and> dom f' = dom f"
proof -
  let ?m = "mirror_cell mirrorfac ijk_vec idim iside"
  let ?inner = "?m[idim := ?m ! idim + (if iside = 0 then 1 else - 1)]"
  consider "\<not> is_pec idim iside"
    | "is_pec idim iside" "ijk_vec = ?m" "contains fabbox ?inner"
    | "is_pec idim iside" "ijk_vec = ?m" "\<not> contains fabbox ?inner"
    | "is_pec idim iside" "ijk_vec \<noteq> ?m" "contains fabbox ?m"
    | "is_pec idim iside" "ijk_vec \<noteq> ?m" "\<not> contains fabbox ?m"
    by blast
  then show ?thesis
  proof cases
    case 1
    then show ?thesis by (simp add: neumann_side_def)
  next
    case 2
    obtain v where v: "f (?inner, n) = Some v" using assms(2) [OF 2(3)] by blast
    have "neumann_side n ijk_vec mirrorfac is_pec fabbox idim iside f = Some (f((ijk_vec, n) \<mapsto> v))"
      using 2 v assms(1) by (simp add: neumann_side_def Let_def a4_set_def)
    then show ?thesis using assms(1) by auto
  next
    case 3
    then show ?thesis by (simp add: neumann_side_def Let_def)
  next
    case 4
    obtain v where v: "f (ijk_vec, n) = Some v" using assms(1) by blast
    have "neumann_side n ijk_vec mirrorfac is_pec fabbox idim iside f = Some (f((?m, n) \<mapsto> v))"
      using 4 v assms(2) [OF 4(3)] by (simp add: neumann_side_def Let_def a4_set_def)
    then show ?thesis using assms(2) [OF 4(3)] by auto
  next
    case 5
    then show ?thesis by (simp add: neumann_side_def Let_def)
  qed
qed

lemma neumann_total:
  assumes "(ijk_vec, n) \<in> dom field" and "\<And>iv. contains fabbox iv \<Longrightarrow> (iv, n) \<in> dom field"
  shows "\<exists>F. SetNeumannOnPEC geom n ijk_vec field mirrorfac is_pec fabbox = Some F"
proof -
  have "\<exists>t'. fold (\<lambda>x st. st \<bind> neumann_side n ijk_vec mirrorfac is_pec fabbox (fst x) (snd x))
          (sides (AMREX_SPACEDIM geom)) (Some field) = Some t' \<and> dom t' = dom field"
  proof (rule fold_bind_invariant [where I = "\<lambda>f. dom f = dom field"])
    show "dom field = dom field" ..
    show "\<exists>t'. neumann_side n ijk_vec mirrorfac is_pec fabbox (fst x) (snd x) t = Some t' \<and> dom t' = dom field"
      if "dom t = dom field" for x t
      using neumann_side_total [of ijk_vec n t fabbox mirrorfac is_pec "fst x" "snd x"] assms that
      by auto
  qed
  then show ?thesis
    unfolding SetNeumannOnPEC_def for_sides_bind_fold_pair by blast
qed

lemma rho_fold_guard_restrict:
  assumes "contains fabbox ijk_vec"
  shows "rho_fold_guard n ijk_vec mirrorfac psign
           (\<lambda>d s. is_pec d s \<and> contains fabbox (mirror_cell mirrorfac ijk_vec d s)) fabbox
       = rho_fold_guard n ijk_vec mirrorfac psign is_pec fabbox"
  using assms by (auto simp: rho_fold_guard_def fun_eq_iff Let_def)

lemma rho_set_guard_restrict:
  "rho_set_guard n ijk_vec mirrorfac
           (\<lambda>d s. is_pec d s \<and> contains fabbox (mirror_cell mirrorfac ijk_vec d s)) tangent_to_bndy fabbox
       = rho_set_guard n ijk_vec mirrorfac is_pec tangent_to_bndy fabbox"
  by (auto simp: rho_set_guard_def fun_eq_iff Let_def)

lemma neumann_side_restrict:
  assumes "contains fabbox ijk_vec"
  shows "neumann_side n ijk_vec mirrorfac
           (\<lambda>d s. is_pec d s \<and> contains fabbox (mirror_cell mirrorfac ijk_vec d s)) fabbox
       = neumann_side n ijk_vec mirrorfac is_pec fabbox"
  using assms by (auto simp: neumann_side_def fun_eq_iff Let_def)

lemma rho_idle:
  assumes "\<And>d s. d < AMREX_SPACEDIM geom \<Longrightarrow> s < 2 \<Longrightarrow> \<not> is_pec d s"
  shows "SetRhoOrJfieldFromPEC geom n ijk_vec field mirrorfac psign is_pec tangent_to_bndy fabbox
           = Some field"
proof -
  have a: "fold (\<lambda>x st. st \<bind> rho_fold_guard n ijk_vec mirrorfac psign is_pec fabbox (fst x) (snd x))
      (sides (AMREX_SPACEDIM geom)) (Some field) = Some field"
    by (rule fold_bind_idle) (use assms in \<open>auto simp: set_sides rho_fold_guard_def\<close>)
  have b: "fold (\<lambda>x st. st \<bind> rho_set_guard n ijk_vec mirrorfac is_pec tangent_to_bndy fabbox (fst x) (snd x))
      (sides (AMREX_SPACEDIM geom)) (Some field) = Some field"
    by (rule fold_bind_idle) (use assms in \<open>auto simp: set_sides rho_set_guard_def\<close>)
  show ?thesis
    by (simp add: SetRhoOrJfieldFromPEC_def for_sides_bind_fold_pair a b)
qed

lemma neumann_idle:
  assumes "\<And>d s. d < AMREX_SPACEDIM geom \<Longrightarrow> s < 2 \<Longrightarrow> \<not> is_pec d s"
  shows "SetNeumannOnPEC geom n ijk_vec field mirrorfac is_pec fabbox = Some field"
  unfolding SetNeumannOnPEC_def for_sides_bind_fold_pair
  by (rule fold_bind_idle) (use assms in \<open>auto simp: set_sides neumann_side_def\<close>)

text \<open>
  C6. A kernel call at a cell \<open>ijk_vec\<close> of the fab box, on an array that holds the fab
  box. Both kernels return an array: no access falls outside the array. A PEC side
  whose mirror cell is outside the fab box counts for nothing: the call equals the call
  in which that side is not PEC. When every PEC side is such a side, the array comes
  back unchanged.
\<close>

theorem missing_mirror_is_skipped:
  assumes "contains fabbox ijk_vec"
    and "\<And>iv. contains fabbox iv \<Longrightarrow> (iv, n) \<in> dom field"
  shows "(\<exists>F. SetRhoOrJfieldFromPEC geom n ijk_vec field mirrorfac psign is_pec tangent_to_bndy fabbox
               = Some F)
     \<and> (\<exists>F. SetNeumannOnPEC geom n ijk_vec field mirrorfac is_pec fabbox = Some F)
     \<and> SetRhoOrJfieldFromPEC geom n ijk_vec field mirrorfac psign is_pec tangent_to_bndy fabbox
         = SetRhoOrJfieldFromPEC geom n ijk_vec field mirrorfac psign
             (\<lambda>d s. is_pec d s \<and> contains fabbox (mirror_cell mirrorfac ijk_vec d s))
             tangent_to_bndy fabbox
     \<and> SetNeumannOnPEC geom n ijk_vec field mirrorfac is_pec fabbox
         = SetNeumannOnPEC geom n ijk_vec field mirrorfac
             (\<lambda>d s. is_pec d s \<and> contains fabbox (mirror_cell mirrorfac ijk_vec d s)) fabbox
     \<and> ((\<forall>idim iside. idim < AMREX_SPACEDIM geom \<and> iside < 2 \<and> is_pec idim iside
             \<longrightarrow> \<not> contains fabbox (mirror_cell mirrorfac ijk_vec idim iside))
         \<longrightarrow> SetRhoOrJfieldFromPEC geom n ijk_vec field mirrorfac psign is_pec tangent_to_bndy fabbox
               = Some field
           \<and> SetNeumannOnPEC geom n ijk_vec field mirrorfac is_pec fabbox = Some field)"
proof -
  have own: "(ijk_vec, n) \<in> dom field" using assms by blast
  then obtain v0 where v0: "field (ijk_vec, n) = Some v0" by blast
  have t1: "\<exists>F. SetRhoOrJfieldFromPEC geom n ijk_vec field mirrorfac psign is_pec tangent_to_bndy fabbox
               = Some F"
    using rho_kernel_result [OF v0 assms(2) refl] by blast
  have t2: "\<exists>F. SetNeumannOnPEC geom n ijk_vec field mirrorfac is_pec fabbox = Some F"
    using own assms(2) by (rule neumann_total)
  have r1: "SetRhoOrJfieldFromPEC geom n ijk_vec field mirrorfac psign is_pec tangent_to_bndy fabbox
         = SetRhoOrJfieldFromPEC geom n ijk_vec field mirrorfac psign
             (\<lambda>d s. is_pec d s \<and> contains fabbox (mirror_cell mirrorfac ijk_vec d s))
             tangent_to_bndy fabbox"
    unfolding SetRhoOrJfieldFromPEC_def rho_fold_guard_restrict [OF assms(1)] rho_set_guard_restrict ..
  have r2: "SetNeumannOnPEC geom n ijk_vec field mirrorfac is_pec fabbox
         = SetNeumannOnPEC geom n ijk_vec field mirrorfac
             (\<lambda>d s. is_pec d s \<and> contains fabbox (mirror_cell mirrorfac ijk_vec d s)) fabbox"
    unfolding SetNeumannOnPEC_def neumann_side_restrict [OF assms(1)] ..
  have idle: "SetRhoOrJfieldFromPEC geom n ijk_vec field mirrorfac psign is_pec tangent_to_bndy fabbox
               = Some field
           \<and> SetNeumannOnPEC geom n ijk_vec field mirrorfac is_pec fabbox = Some field"
    if "\<forall>idim iside. idim < AMREX_SPACEDIM geom \<and> iside < 2 \<and> is_pec idim iside
             \<longrightarrow> \<not> contains fabbox (mirror_cell mirrorfac ijk_vec idim iside)"
  proof -
    have no: "\<And>d s. d < AMREX_SPACEDIM geom \<Longrightarrow> s < 2 \<Longrightarrow>
        \<not> (is_pec d s \<and> contains fabbox (mirror_cell mirrorfac ijk_vec d s))"
      using that by blast
    show ?thesis
      unfolding r1 r2 using rho_idle [OF no] neumann_idle [OF no] by simp
  qed
  show ?thesis
    using t1 t2 r1 r2 idle by blast
qed

theorem missing_mirror_is_skipped_witness:
  "SetRhoOrJfieldFromPEC DIM_1D_Z 0 [2] (\<lambda>c. Some 5) (\<lambda>d s. 40) (\<lambda>d s. - 1) (\<lambda>d s. s = 1) (\<lambda>d. True)
       \<lparr>smallend = [- 3], bigend = [12]\<rparr> = Some (\<lambda>c. Some 5)
   \<and> SetNeumannOnPEC DIM_1D_Z 0 [2] (\<lambda>c. Some 5) (\<lambda>d s. 40) (\<lambda>d s. s = 1)
       \<lparr>smallend = [- 3], bigend = [12]\<rparr> = Some (\<lambda>c. Some 5)"
proof -
  have c: "contains \<lparr>smallend = [- 3], bigend = [12]\<rparr> [2]"
    by (simp add: contains_def)
  have d: "\<And>iv. contains \<lparr>smallend = [- 3], bigend = [12]\<rparr> iv \<Longrightarrow> (iv, 0) \<in> dom (\<lambda>c :: field_cell. Some (5::real))"
    by simp
  have out: "\<forall>idim iside. idim < AMREX_SPACEDIM DIM_1D_Z \<and> iside < 2 \<and> iside = 1
      \<longrightarrow> \<not> contains \<lparr>smallend = [- 3], bigend = [12]\<rparr> (mirror_cell (\<lambda>d s. 40) [2] idim iside)"
    by (simp add: mirror_cell_def contains_def)
  show ?thesis
    using missing_mirror_is_skipped [of "\<lparr>smallend = [- 3], bigend = [12]\<rparr>" "[2]" 0 "\<lambda>c. Some 5"
        DIM_1D_Z "\<lambda>d s. 40" "\<lambda>d s. - 1" "\<lambda>d s. s = 1" "\<lambda>d. True", OF c d] out
    by blast
qed







end
